theory Spec2Isabelle
  imports Complex_Main
begin

section \<open>Data model of the routing simulator\<close>

text \<open>
  The simulator is the React component \<open>GraphSimulator\<close>. Its TypeScript interfaces become
  records. A JavaScript \<open>number\<close> is a value of type \<^typ>\<open>real\<close>; infinities and NaN are
  left out. The strategies only compare the distances and angles they compute, and their
  arithmetic is read over the real numbers. The statistics of a route are numbers shown
  to the user, and their arithmetic is the rounded arithmetic of binary64 (see
  \<open>round64\<close> below). A node identity (the value of \<open>Date.now()\<close>) is an \<^typ>\<open>int\<close>; only
  its equality is used.

  Record fields carry a short prefix, because the source's field names (\<open>id\<close>, \<open>x\<close>, \<open>y\<close>,
  \<open>color\<close>, \<open>destination\<close>, ...) are also the names of HOL constants or of the source's own
  parameters: \<open>Node.id\<close> is \<open>nid\<close>, \<open>RouteEdge.x1\<close> is \<open>ex1\<close>, \<open>Packet.destination\<close> is
  \<open>pkt_destination\<close>, \<open>RouteStats.numEdges\<close> is \<open>stats_numEdges\<close>.
\<close>

record Node =
  nid :: int
  nx :: real
  ny :: real
  ncolor :: string

record Packet =
  pkt_currentNode :: Node
  pkt_destination :: Node

record RouteEdge =
  ex1 :: real
  ey1 :: real
  ex2 :: real
  ey2 :: real
  startId :: int
  endId :: int
  ecolor :: string

record RouteStats =
  stats_numEdges :: nat
  stats_totalLength :: real
  stats_directDistance :: real

text \<open>
  The type \<open>Strategy\<close> of the source has five members. \<open>OtherStrategy\<close> stands for any other
  value of the selector, which the \<open>default\<close> arm of the switch in \<open>getNextNode\<close> handles.
\<close>

datatype Strategy =
  ClosestToDestination
  | AngleClosest
  | SmallestJump
  | FirstLeft
  | Random
  | OtherStrategy

text \<open>
  The texts shown to the user are French sentences with accented letters; each one is a
  constructor here. \<open>MsgEmpty\<close> is the empty string that \<open>startRoutingSimulation\<close> sets first.
\<close>

datatype Message =
  MsgEmpty
  | MsgPathReset
  | MsgPacketLost
  | MsgArrived
  | MsgNeedTwoActiveNodes
  | MsgNoDestination string

text \<open>A property read of \<open>undefined\<close> or \<open>null\<close>, or \<open>reduce\<close> of an empty array without
  initial value, throws a \<open>TypeError\<close>.\<close>

datatype error = TypeError

definition svgWidth :: real where
  "svgWidth = 600"

definition svgHeight :: real where
  "svgHeight = 400"

definition baseRadius :: real where
  "baseRadius = 5"

definition activeColors :: "string list" where
  "activeColors = [''red'', ''blue'', ''green'', ''orange'']"

definition inactiveColor :: string where
  "inactiveColor = ''grey''"

definition colors :: "string list" where
  "colors = inactiveColor # activeColors"

text \<open>
  The component's state: the five \<open>useState\<close> cells of the run, the strategy selector and
  the \<open>simulationStarted\<close> ref. An absent packet, statistics or message is \<open>None\<close>.
\<close>

record State =
  nodes :: "Node list"
  packet :: "Packet option"
  routeEdges :: "RouteEdge list"
  lastRouteStats :: "RouteStats option"
  finalMessage :: "Message option"
  strategy :: Strategy
  simulationStarted :: bool

section \<open>Geometry\<close>

definition distance :: "Node \<Rightarrow> Node \<Rightarrow> real" where
  "distance a b =
     (let dx = nx a - nx b; dy = ny a - ny b in sqrt (dx * dx + dy * dy))"

text \<open>
  \<open>Math.atan2\<close> is a builtin of the language; this is its value on real arguments: the
  angle in \<open>(-\<pi>, \<pi>]\<close> of the vector \<open>(x, y)\<close>, and \<open>0\<close> at the origin.
\<close>

definition atan2 :: "real \<Rightarrow> real \<Rightarrow> real" where
  "atan2 y x =
     (if 0 < x then arctan (y / x)
      else if x < 0 then (if 0 \<le> y then arctan (y / x) + pi else arctan (y / x) - pi)
      else if 0 < y then pi / 2
      else if y < 0 then - (pi / 2)
      else 0)"

text \<open>The two \<open>while\<close> loops of \<open>firstLeft\<close> that bring the relative angle back into range.\<close>

function normalizeUp :: "real \<Rightarrow> real" where
  "normalizeUp r = (if r \<le> - pi then normalizeUp (r + 2 * pi) else r)"
  by pat_completeness auto
termination
proof (relation "measure (\<lambda>r. nat (\<lfloor>(- pi - r) / (2 * pi)\<rfloor> + 1))")
  show "wf (measure (\<lambda>r. nat (\<lfloor>(- pi - r) / (2 * pi)\<rfloor> + 1)))"
    by simp
next
  fix r :: real
  assume le: "r \<le> - pi"
  have "(- pi - (r + 2 * pi)) / (2 * pi) = (- pi - r) / (2 * pi) - 1"
    by (simp add: field_simps)
  then have fl: "\<lfloor>(- pi - (r + 2 * pi)) / (2 * pi)\<rfloor> = \<lfloor>(- pi - r) / (2 * pi)\<rfloor> - 1"
    by simp
  have "0 \<le> (- pi - r) / (2 * pi)"
    using le by simp
  then have "0 \<le> \<lfloor>(- pi - r) / (2 * pi)\<rfloor>"
    by simp
  with fl show "(r + 2 * pi, r) \<in> measure (\<lambda>r. nat (\<lfloor>(- pi - r) / (2 * pi)\<rfloor> + 1))"
    by simp
qed

function normalizeDown :: "real \<Rightarrow> real" where
  "normalizeDown r = (if pi < r then normalizeDown (r - 2 * pi) else r)"
  by pat_completeness auto
termination
proof (relation "measure (\<lambda>r. nat (\<lfloor>(r - pi) / (2 * pi)\<rfloor> + 1))")
  show "wf (measure (\<lambda>r. nat (\<lfloor>(r - pi) / (2 * pi)\<rfloor> + 1)))"
    by simp
next
  fix r :: real
  assume gt: "pi < r"
  have "(r - 2 * pi - pi) / (2 * pi) = (r - pi) / (2 * pi) - 1"
    by (simp add: field_simps)
  then have fl: "\<lfloor>(r - 2 * pi - pi) / (2 * pi)\<rfloor> = \<lfloor>(r - pi) / (2 * pi)\<rfloor> - 1"
    by simp
  have "0 \<le> (r - pi) / (2 * pi)"
    using gt by simp
  then have "0 \<le> \<lfloor>(r - pi) / (2 * pi)\<rfloor>"
    by simp
  with fl show "(r - 2 * pi, r) \<in> measure (\<lambda>r. nat (\<lfloor>(r - pi) / (2 * pi)\<rfloor> + 1))"
    by simp
qed

declare normalizeUp.simps [simp del]
declare normalizeDown.simps [simp del]

definition relativeAngle :: "real \<Rightarrow> real \<Rightarrow> real" where
  "relativeAngle candidateAngle baselineAngle =
     normalizeDown (normalizeUp (candidateAngle - baselineAngle))"

section \<open>Next-hop selection\<close>

text \<open>
  Each arm of the switch in \<open>getNextNode\<close> is a definition of its own. \<open>reduce\<close> with the
  initial value \<open>null\<close> is a left fold over an optional best node; the array methods
  \<open>filter\<close>, \<open>map\<close> and \<open>some\<close> are \<^const>\<open>filter\<close>, \<^const>\<open>map\<close> and \<^const>\<open>list_ex\<close>.
\<close>

definition closerToDestination :: "Node \<Rightarrow> Node option \<Rightarrow> Node \<Rightarrow> Node option" where
  "closerToDestination destination best candidate =
     (let candidateDistance = distance candidate destination in
      case best of
        None \<Rightarrow> Some candidate
      | Some b \<Rightarrow> if candidateDistance < distance b destination then Some candidate else Some b)"

definition closestToDestination :: "Node \<Rightarrow> Node list \<Rightarrow> Node option" where
  "closestToDestination destination candidates =
     foldl (closerToDestination destination) None candidates"

definition shorterJump :: "Node \<Rightarrow> Node option \<Rightarrow> Node \<Rightarrow> Node option" where
  "shorterJump current best candidate =
     (let candidateJump = distance current candidate in
      case best of
        None \<Rightarrow> Some candidate
      | Some b \<Rightarrow> if candidateJump < distance current b then Some candidate else Some b)"

definition smallestJump :: "Node \<Rightarrow> Node \<Rightarrow> Node list \<Rightarrow> Node option" where
  "smallestJump current destination candidates =
     (let validCandidates =
            filter (\<lambda>candidate. distance candidate destination < distance current destination)
              candidates
      in if 0 < length validCandidates
         then foldl (shorterJump current) None validCandidates
         else None)"

definition angleDiff :: "Node \<Rightarrow> real \<Rightarrow> Node \<Rightarrow> real" where
  "angleDiff current baselineAngle candidate =
     (let candidateAngle = atan2 (ny candidate - ny current) (nx candidate - nx current);
          diff = \<bar>candidateAngle - baselineAngle\<bar>
      in if pi < diff then 2 * pi - diff else diff)"

definition smallerAngle :: "Node \<Rightarrow> real \<Rightarrow> Node option \<Rightarrow> Node \<Rightarrow> Node option" where
  "smallerAngle current baselineAngle best candidate =
     (let diff = angleDiff current baselineAngle candidate in
      case best of
        None \<Rightarrow> Some candidate
      | Some b \<Rightarrow>
          (let bestDiff = angleDiff current baselineAngle b
           in if diff < bestDiff then Some candidate else Some b))"

definition angleClosest :: "Node \<Rightarrow> Node \<Rightarrow> Node list \<Rightarrow> Node option" where
  "angleClosest current destination candidates =
     (let baselineAngle = atan2 (ny destination - ny current) (nx destination - nx current)
      in foldl (smallerAngle current baselineAngle) None candidates)"

text \<open>\<open>reduce\<close> without an initial value starts from the first element and throws on an
  empty array.\<close>

fun reduce1 :: "('a \<Rightarrow> 'a \<Rightarrow> 'a) \<Rightarrow> 'a list \<Rightarrow> error + 'a" where
  "reduce1 f [] = Inl TypeError"
| "reduce1 f (x # xs) = Inr (foldl f x xs)"

text \<open>The relative angle that \<open>firstLeft\<close> computes for a candidate, and the object
  \<open>{ candidate, relativeAngle }\<close> it builds from it.\<close>

definition relativeBearing :: "Node \<Rightarrow> Node \<Rightarrow> Node \<Rightarrow> real" where
  "relativeBearing current destination candidate =
     (let baselineAngle = atan2 (ny destination - ny current) (nx destination - nx current);
          candidateAngle = atan2 (ny candidate - ny current) (nx candidate - nx current)
      in relativeAngle candidateAngle baselineAngle)"

definition withAngle :: "Node \<Rightarrow> Node \<Rightarrow> Node \<Rightarrow> Node \<times> real" where
  "withAngle current destination candidate =
     (candidate, relativeBearing current destination candidate)"

definition firstLeft :: "Node \<Rightarrow> Node \<Rightarrow> Node list \<Rightarrow> error + Node option" where
  "firstLeft current destination candidates =
     (let candidatesWithAngle = map (withAngle current destination) candidates;
          leftCandidates = filter (\<lambda>c. 0 < snd c) candidatesWithAngle
      in if 0 < length leftCandidates
         then (case reduce1 (\<lambda>best currentItem.
                       if snd currentItem < snd best then currentItem else best)
                     leftCandidates of
                 Inl e \<Rightarrow> Inl e
               | Inr best \<Rightarrow> Inr (Some (fst best)))
         else (case reduce1 (\<lambda>best currentItem.
                       if snd best < snd currentItem then currentItem else best)
                     candidatesWithAngle of
                 Inl e \<Rightarrow> Inl e
               | Inr best \<Rightarrow> Inr (Some (fst best))))"

text \<open>
  \<open>xs[Math.floor(r * xs.length)]\<close>, where \<open>r\<close> is the value that \<open>Math.random()\<close> returned.
  \<open>Math.random()\<close> lies in \<open>[0, 1)\<close>, so the index is in range on a non-empty array; for any
  other \<open>r\<close> the read gives \<open>undefined\<close>, which is \<open>None\<close> here.
\<close>

definition pick :: "real \<Rightarrow> 'a list \<Rightarrow> 'a option" where
  "pick r xs =
     (let i = \<lfloor>r * real (length xs)\<rfloor>
      in if 0 \<le> i \<and> i < int (length xs) then Some (xs ! nat i) else None)"

definition edgeTraversed :: "RouteEdge list \<Rightarrow> Node \<Rightarrow> Node \<Rightarrow> bool" where
  "edgeTraversed edges current candidate =
     list_ex (\<lambda>edge. (startId edge = nid current \<and> endId edge = nid candidate)
                   \<or> (startId edge = nid candidate \<and> endId edge = nid current)) edges"

definition randomUnused :: "real \<Rightarrow> RouteEdge list \<Rightarrow> Node \<Rightarrow> Node list \<Rightarrow> Node option" where
  "randomUnused r edges current candidates =
     (let validCandidates = filter (\<lambda>candidate. \<not> edgeTraversed edges current candidate) candidates
      in if 0 < length validCandidates then pick r validCandidates else None)"

text \<open>The switch itself. A result \<open>Inr None\<close> is the source's \<open>null\<close> (or \<open>undefined\<close>: the
  only reader, \<open>simulateRoutingStep\<close>, tests \<open>!next\<close>).\<close>

definition chooseNeighbor ::
  "Strategy \<Rightarrow> real \<Rightarrow> RouteEdge list \<Rightarrow> Node \<Rightarrow> Node \<Rightarrow> Node list \<Rightarrow> error + Node option" where
  "chooseNeighbor strat r edges current destination candidates =
     (case strat of
        ClosestToDestination \<Rightarrow> Inr (closestToDestination destination candidates)
      | SmallestJump \<Rightarrow> Inr (smallestJump current destination candidates)
      | AngleClosest \<Rightarrow> Inr (angleClosest current destination candidates)
      | FirstLeft \<Rightarrow> firstLeft current destination candidates
      | Random \<Rightarrow> Inr (randomUnused r edges current candidates)
      | OtherStrategy \<Rightarrow> Inr (closestToDestination destination candidates))"

text \<open>\<open>findIndex\<close>: the first index whose element satisfies the predicate, \<open>-1\<close> if none does.\<close>

fun findIndexFrom :: "int \<Rightarrow> ('a \<Rightarrow> bool) \<Rightarrow> 'a list \<Rightarrow> int" where
  "findIndexFrom i P [] = - 1"
| "findIndexFrom i P (x # xs) = (if P x then i else findIndexFrom (i + 1) P xs)"

definition findIndex :: "('a \<Rightarrow> bool) \<Rightarrow> 'a list \<Rightarrow> int" where
  "findIndex P xs = findIndexFrom 0 P xs"

text \<open>
  The triangulation comes from the library d3-delaunay, which is not part of the program.
  It is a parameter \<open>nb\<close>: \<open>nb points i\<close> is the sequence of indices that
  \<open>Delaunay.from(points).neighbors(i)\<close> yields. \<open>neighborCandidates\<close> is
  \<open>neighborIndices.map((i) => nodes[i])\<close>; an index outside the array reads \<open>undefined\<close>,
  which is \<open>None\<close>.
\<close>

type_synonym delaunay = "(real \<times> real) list \<Rightarrow> int \<Rightarrow> nat list"

definition neighborCandidates :: "delaunay \<Rightarrow> Node list \<Rightarrow> Node \<Rightarrow> Node option list" where
  "neighborCandidates nb ns current =
     (let currentIndex = findIndex (\<lambda>n. nid n = nid current) ns;
          neighborIndices = nb (map (\<lambda>n. (nx n, ny n)) ns) currentIndex
      in map (\<lambda>i. if i < length ns then Some (ns ! i) else None) neighborIndices)"

text \<open>
  \<open>getNextNode\<close> reads \<open>nodes\<close>, \<open>strategy\<close> and \<open>routeEdges\<close> from the component state it
  closes over, here \<open>env\<close>; \<open>r\<close> is the value of \<open>Math.random()\<close>, read by the \<open>random\<close> arm
  only.

  When some candidate is \<open>undefined\<close>, every arm but one throws: the arms
  \<open>closestToDestination\<close>, \<open>smallestJump\<close>, \<open>angleClosest\<close>, \<open>firstLeft\<close> and \<open>default\<close> read a
  coordinate of every candidate, and the \<open>random\<close> arm reads \<open>candidate.id\<close> for every
  candidate as soon as \<open>routeEdges\<close> has an edge. With no edge, \<open>some\<close> never calls its
  argument, every candidate passes the filter, and the one picked is returned.
\<close>

definition getNextNode ::
  "delaunay \<Rightarrow> State \<Rightarrow> real \<Rightarrow> Node \<Rightarrow> Node \<Rightarrow> error + Node option" where
  "getNextNode nb env r current destination =
     (if length (nodes env) < 3 then Inr None
      else
        (let candidates = neighborCandidates nb (nodes env) current
         in if length candidates = 0 then Inr None
            else if list_ex (\<lambda>c. c = None) candidates
            then (if strategy env = Random \<and> routeEdges env = []
                  then Inr (case pick r candidates of None \<Rightarrow> None | Some c \<Rightarrow> c)
                  else Inl TypeError)
            else chooseNeighbor (strategy env) r (routeEdges env) current destination
                   (map the candidates)))"

section \<open>Topology state: moving a node\<close>

definition updateNodePosition :: "int \<Rightarrow> real \<Rightarrow> real \<Rightarrow> State \<Rightarrow> State" where
  "updateNodePosition i x y st =
     (let clampedX = max baseRadius (min x (svgWidth - baseRadius));
          clampedY = max baseRadius (min y (svgHeight - baseRadius));
          st1 = st\<lparr>nodes :=
                  map (\<lambda>n. if nid n = i then n\<lparr>nx := clampedX, ny := clampedY\<rparr> else n) (nodes st)\<rparr>
      in if list_ex (\<lambda>edge. startId edge = i \<or> endId edge = i) (routeEdges st)
         then st1\<lparr>routeEdges := [], lastRouteStats := None,
                  finalMessage := Some MsgPathReset, packet := None,
                  simulationStarted := False\<rparr>
         else st1)"

section \<open>Routing simulator\<close>

text \<open>
  \<open>startRoutingSimulation\<close> draws twice from \<open>Math.random()\<close>: \<open>r1\<close> for the source, \<open>r2\<close> for
  the destination. Outside \<open>[0, 1)\<close> a draw would read \<open>undefined\<close>: an undefined source
  throws at \<open>source.color\<close>, and an undefined destination throws when the packet is drawn
  (\<open>packet.destination.color\<close>).
\<close>

definition startRoutingSimulation :: "real \<Rightarrow> real \<Rightarrow> State \<Rightarrow> error + State" where
  "startRoutingSimulation r1 r2 st =
     (let activeNodes = filter (\<lambda>n. ncolor n \<noteq> inactiveColor) (nodes st)
      in if length activeNodes < 2
         then Inr (st\<lparr>finalMessage := Some MsgNeedTwoActiveNodes\<rparr>)
         else
           (case pick r1 activeNodes of
              None \<Rightarrow> Inl TypeError
            | Some source \<Rightarrow>
                (let candidates =
                       filter (\<lambda>n. ncolor n = ncolor source \<and> nid n \<noteq> nid source) activeNodes
                 in if length candidates = 0
                    then Inr (st\<lparr>finalMessage := Some (MsgNoDestination (ncolor source))\<rparr>)
                    else
                      (case pick r2 candidates of
                         None \<Rightarrow> Inl TypeError
                       | Some destination \<Rightarrow>
                           Inr (st\<lparr>finalMessage := Some MsgEmpty,
                                   routeEdges := [],
                                   lastRouteStats := None,
                                   packet := Some \<lparr>pkt_currentNode = source,
                                                   pkt_destination = destination\<rparr>,
                                   simulationStarted := False\<rparr>)))))"

text \<open>
  The arithmetic of the statistics. A \<open>number\<close> is a binary64 value, and \<open>-\<close>, \<open>+\<close> and
  \<open>Math.sqrt\<close> return the exact result rounded to the nearest value with a significand of 53
  bits, a tie going to the even significand. \<open>round64\<close> is that rounding: \<open>e\<close> is the binary
  exponent of \<open>x\<close> and \<open>ulp\<close> the spacing of the binary64 values of that exponent. The
  exponent is not bounded here (no overflow to \<open>Infinity\<close>, no subnormal values); the
  coordinates of a 600 by 400 canvas and the lengths between them are far from both ends.
  \<open>Math.pow(a, 2)\<close> is taken as the rounded square.
\<close>

definition roundHalfEven :: "real \<Rightarrow> int" where
  "roundHalfEven q =
     (let f = \<lfloor>q\<rfloor>; d = q - of_int f
      in if d < 1 / 2 then f else if 1 / 2 < d then f + 1 else if even f then f else f + 1)"

definition round64 :: "real \<Rightarrow> real" where
  "round64 x =
     (if x = 0 then 0
      else
        (let e = \<lfloor>log 2 \<bar>x\<bar>\<rfloor>;
             ulp = 2 powr of_int (e - 52)
         in of_int (roundHalfEven (x / ulp)) * ulp))"

definition jsSub :: "real \<Rightarrow> real \<Rightarrow> real" where
  "jsSub a b = round64 (a - b)"

definition jsAdd :: "real \<Rightarrow> real \<Rightarrow> real" where
  "jsAdd a b = round64 (a + b)"

definition jsSquare :: "real \<Rightarrow> real" where
  "jsSquare a = round64 (a * a)"

definition jsSqrt :: "real \<Rightarrow> real" where
  "jsSqrt a = round64 (sqrt a)"

definition edgeLength :: "RouteEdge \<Rightarrow> real" where
  "edgeLength edge =
     jsSqrt (jsAdd (jsSquare (jsSub (ex2 edge) (ex1 edge)))
                   (jsSquare (jsSub (ey2 edge) (ey1 edge))))"

text \<open>The statistics of the arrival branch. \<open>newEdges\<close> is the old route with one edge
  appended, so its first and last elements exist.\<close>

definition routeStats :: "RouteEdge list \<Rightarrow> RouteStats" where
  "routeStats newEdges =
     \<lparr>stats_numEdges = length newEdges,
      stats_totalLength = foldl (\<lambda>sum edge. jsAdd sum (edgeLength edge)) 0 newEdges,
      stats_directDistance =
        jsSqrt (jsAdd
          (jsSquare (jsSub (ex1 (newEdges ! 0)) (ex2 (newEdges ! (length newEdges - 1)))))
          (jsSquare (jsSub (ey1 (newEdges ! 0)) (ey2 (newEdges ! (length newEdges - 1))))))\<rparr>"

text \<open>The edge object that a hop appends to the route.\<close>

definition hopEdge :: "Node \<Rightarrow> Node \<Rightarrow> string \<Rightarrow> RouteEdge" where
  "hopEdge current next col =
     \<lparr>ex1 = nx current, ey1 = ny current, ex2 = nx next, ey2 = ny next,
      startId = nid current, endId = nid next, ecolor = col\<rparr>"

text \<open>
  One hop. The source moves the packet with a one-second transition, appends the edge when
  the transition ends and, on arrival, sets the final message 100 ms later; the model takes
  the hop as one unit. Two states take part:
  \<^item> \<open>env\<close>, the state of the render whose closure runs: \<open>getNextNode\<close> reads \<open>nodes\<close>,
    \<open>strategy\<close> and \<open>routeEdges\<close> there, and the edge colour comes from its \<open>packet\<close>
    (\<open>packet!.destination.color\<close>, a \<open>TypeError\<close> when that packet is \<open>null\<close>);
  \<^item> \<open>st\<close>, the current state, which the setters update (\<open>setRouteEdges\<close> appends to the
    previous value of the cell).
  The result is the new state and the node with which the source calls itself again
  (\<open>None\<close> when the run ends, lost or arrived).
\<close>

definition simulateRoutingStep ::
  "delaunay \<Rightarrow> real \<Rightarrow> State \<Rightarrow> State \<Rightarrow> Node \<Rightarrow> Node \<Rightarrow> error + State \<times> Node option" where
  "simulateRoutingStep nb r env st current destination =
     (case getNextNode nb env r current destination of
        Inl e \<Rightarrow> Inl e
      | Inr None \<Rightarrow>
          Inr (st\<lparr>finalMessage := Some MsgPacketLost, packet := None,
                  simulationStarted := False\<rparr>, None)
      | Inr (Some next) \<Rightarrow>
          (case packet env of
             None \<Rightarrow> Inl TypeError
           | Some p \<Rightarrow>
               (let newEdges = routeEdges st @
                      [hopEdge current next (ncolor (pkt_destination p))];
                    st1 = (if nid next = nid destination
                           then st\<lparr>lastRouteStats := Some (routeStats newEdges)\<rparr>
                           else st)\<lparr>routeEdges := newEdges\<rparr>
                in if nid next = nid destination
                   then Inr (st1\<lparr>finalMessage := Some MsgArrived, packet := None,
                                 simulationStarted := False\<rparr>, None)
                   else Inr (st1\<lparr>packet := Some \<lparr>pkt_currentNode = next,
                                                    pkt_destination = destination\<rparr>\<rparr>,
                             Some next))))"

text \<open>
  A run: \<open>simulateRoutingStep\<close> calls itself from the closure it started in, so \<open>env\<close> stays
  the same from hop to hop. The list holds the successive values of \<open>Math.random()\<close>, one
  per hop; a run that has used them all is still in transit and is returned as it stands.
\<close>

fun runSteps :: "delaunay \<Rightarrow> real list \<Rightarrow> State \<Rightarrow> State \<Rightarrow> Node \<Rightarrow> Node \<Rightarrow> error + State" where
  "runSteps nb [] env st current destination = Inr st"
| "runSteps nb (r # rs) env st current destination =
     (case simulateRoutingStep nb r env st current destination of
        Inl e \<Rightarrow> Inl e
      | Inr (st', None) \<Rightarrow> Inr st'
      | Inr (st', Some next) \<Rightarrow> runSteps nb rs env st' next destination)"

text \<open>The effect that starts the run once a packet exists: it sets the
  \<open>simulationStarted\<close> ref and makes the first call with the closure of the current render.\<close>

definition runSimulation :: "delaunay \<Rightarrow> real list \<Rightarrow> State \<Rightarrow> error + State" where
  "runSimulation nb rs st =
     (case packet st of
        None \<Rightarrow> Inr st
      | Some p \<Rightarrow>
          if \<not> simulationStarted st
          then runSteps nb rs st (st\<lparr>simulationStarted := True\<rparr>)
                 (pkt_currentNode p) (pkt_destination p)
          else Inr st)"

section \<open>Properties of a route\<close>

text \<open>
  Path continuity, on identities: \<open>chainFrom a es\<close> holds when the first edge of \<open>es\<close>
  starts at the node \<open>a\<close> and every later edge starts at the node where the one before it
  ends. \<open>pathFrom\<close> is the same on coordinates, and \<open>pathEnd p es\<close> is the point where a
  path \<open>es\<close> that starts at \<open>p\<close> ends.
\<close>

fun chainFrom :: "int \<Rightarrow> RouteEdge list \<Rightarrow> bool" where
  "chainFrom a [] = True"
| "chainFrom a (e # es) = (startId e = a \<and> chainFrom (endId e) es)"

fun pathFrom :: "real \<times> real \<Rightarrow> RouteEdge list \<Rightarrow> bool" where
  "pathFrom p [] = True"
| "pathFrom p (e # es) = ((ex1 e, ey1 e) = p \<and> pathFrom (ex2 e, ey2 e) es)"

fun pathEnd :: "real \<times> real \<Rightarrow> RouteEdge list \<Rightarrow> real \<times> real" where
  "pathEnd p [] = p"
| "pathEnd p (e # es) = pathEnd (ex2 e, ey2 e) es"

text \<open>The Euclidean length of an edge, without rounding.\<close>

definition exactLength :: "RouteEdge \<Rightarrow> real" where
  "exactLength edge = sqrt ((ex2 edge - ex1 edge)\<^sup>2 + (ey2 edge - ey1 edge)\<^sup>2)"

section \<open>A worked configuration\<close>

text \<open>
  Four nodes at the corners of a 150 by 200 rectangle, the two ends of one diagonal red and
  the other two grey, and a triangulation that joins the four sides and the red diagonal.
  The theorems below are instantiated on it.
\<close>

definition nodeA :: Node where
  "nodeA = \<lparr>nid = 1, nx = 100, ny = 100, ncolor = ''red''\<rparr>"

definition nodeB :: Node where
  "nodeB = \<lparr>nid = 2, nx = 250, ny = 100, ncolor = ''grey''\<rparr>"

definition nodeC :: Node where
  "nodeC = \<lparr>nid = 3, nx = 100, ny = 300, ncolor = ''grey''\<rparr>"

definition nodeD :: Node where
  "nodeD = \<lparr>nid = 4, nx = 250, ny = 300, ncolor = ''red''\<rparr>"

definition rectangleNb :: delaunay where
  "rectangleNb points i =
     (if i = 0 then [1, 3, 2]
      else if i = 1 then [0, 3]
      else if i = 2 then [3, 0]
      else if i = 3 then [2, 0, 1]
      else [])"

definition rectangleState :: "Strategy \<Rightarrow> State" where
  "rectangleState strat =
     \<lparr>nodes = [nodeA, nodeB, nodeC, nodeD], packet = None, routeEdges = [],
      lastRouteStats = None, finalMessage = None, strategy = strat,
      simulationStarted = False\<rparr>"

definition packetAD :: Packet where
  "packetAD = \<lparr>pkt_currentNode = nodeA, pkt_destination = nodeD\<rparr>"

definition edgeAB :: RouteEdge where
  "edgeAB = \<lparr>ex1 = 100, ey1 = 100, ex2 = 250, ey2 = 100, startId = 1, endId = 2,
             ecolor = ''red''\<rparr>"

text \<open>A run in transit on the rectangle: the packet has gone from \<open>nodeA\<close> to \<open>nodeB\<close> on
  its way to \<open>nodeD\<close>.\<close>

definition transitState :: State where
  "transitState =
     (rectangleState SmallestJump)
       \<lparr>packet := Some \<lparr>pkt_currentNode = nodeB, pkt_destination = nodeD\<rparr>,
        routeEdges := [edgeAB], finalMessage := Some MsgEmpty, simulationStarted := True\<rparr>"

text \<open>Smaller node sets: the two red nodes alone; one red node with two grey ones; a red,
  a blue and a grey node.\<close>

definition twoRedState :: State where
  "twoRedState = (rectangleState ClosestToDestination)\<lparr>nodes := [nodeA, nodeD]\<rparr>"

definition oneRedState :: State where
  "oneRedState = (rectangleState ClosestToDestination)\<lparr>nodes := [nodeA, nodeB, nodeC]\<rparr>"

definition redBlueState :: State where
  "redBlueState =
     (rectangleState ClosestToDestination)
       \<lparr>nodes := [nodeA, nodeB\<lparr>ncolor := ''blue''\<rparr>, nodeC]\<rparr>"

text \<open>A complete run on the rectangle with the \<open>smallestJump\<close> strategy: the state once the
  simulation is started from \<open>nodeA\<close> to \<open>nodeD\<close>, and the state once the packet has arrived
  through \<open>nodeB\<close>.\<close>

definition startedState :: State where
  "startedState =
     (rectangleState SmallestJump)\<lparr>finalMessage := Some MsgEmpty, packet := Some packetAD\<rparr>"

definition edgeBD :: RouteEdge where
  "edgeBD = \<lparr>ex1 = 250, ey1 = 100, ex2 = 250, ey2 = 300, startId = 2, endId = 4,
             ecolor = ''red''\<rparr>"

definition arrivedState :: State where
  "arrivedState =
     (rectangleState SmallestJump)
       \<lparr>routeEdges := [edgeAB, edgeBD],
        lastRouteStats := Some (routeStats [edgeAB, edgeBD]),
        finalMessage := Some MsgArrived\<rparr>"

definition edgeBA :: RouteEdge where
  "edgeBA = \<lparr>ex1 = 250, ey1 = 100, ex2 = 100, ey2 = 100, startId = 2, endId = 1,
             ecolor = ''red''\<rparr>"

text \<open>A run on the rectangle with the \<open>random\<close> strategy: the state once the simulation is
  started from \<open>nodeA\<close> to \<open>nodeD\<close>, after the hop to \<open>nodeB\<close>, and after the hop back.\<close>

definition randomStarted :: State where
  "randomStarted =
     (rectangleState Random)\<lparr>finalMessage := Some MsgEmpty, packet := Some packetAD\<rparr>"

definition randomFirstHop :: State where
  "randomFirstHop =
     randomStarted
       \<lparr>routeEdges := [edgeAB],
        packet := Some \<lparr>pkt_currentNode = nodeB, pkt_destination = nodeD\<rparr>,
        simulationStarted := True\<rparr>"

definition randomSecondHop :: State where
  "randomSecondHop =
     randomStarted
       \<lparr>routeEdges := [edgeAB, edgeBA],
        packet := Some \<lparr>pkt_currentNode = nodeA, pkt_destination = nodeD\<rparr>,
        simulationStarted := True\<rparr>"

text \<open>
  Three nodes on a line, the two outer ones blue, joined in a chain, and the run from the
  first to the last through the middle one with the \<open>closestToDestination\<close> strategy.
\<close>

definition nodeP :: Node where
  "nodeP = \<lparr>nid = 11, nx = 100, ny = 100, ncolor = ''blue''\<rparr>"

definition nodeQ :: Node where
  "nodeQ = \<lparr>nid = 12, nx = 108, ny = 140, ncolor = ''grey''\<rparr>"

definition nodeR :: Node where
  "nodeR = \<lparr>nid = 13, nx = 119, ny = 195, ncolor = ''blue''\<rparr>"

definition lineNb :: delaunay where
  "lineNb points i =
     (if i = 0 then [1]
      else if i = 1 then [0, 2]
      else if i = 2 then [1]
      else [])"

definition lineState :: State where
  "lineState =
     \<lparr>nodes = [nodeP, nodeQ, nodeR], packet = None, routeEdges = [],
      lastRouteStats = None, finalMessage = None, strategy = ClosestToDestination,
      simulationStarted = False\<rparr>"

definition lineStarted :: State where
  "lineStarted =
     lineState\<lparr>finalMessage := Some MsgEmpty,
               packet := Some \<lparr>pkt_currentNode = nodeP, pkt_destination = nodeR\<rparr>\<rparr>"

definition edgePQ :: RouteEdge where
  "edgePQ = \<lparr>ex1 = 100, ey1 = 100, ex2 = 108, ey2 = 140, startId = 11, endId = 12,
             ecolor = ''blue''\<rparr>"

definition edgeQR :: RouteEdge where
  "edgeQR = \<lparr>ex1 = 108, ey1 = 140, ex2 = 119, ey2 = 195, startId = 12, endId = 13,
             ecolor = ''blue''\<rparr>"

text \<open>The binary64 values that the statistics of this run take: the lengths of the two
  edges, their sum and the direct distance.\<close>

definition lengthPQ :: real where
  "lengthPQ = 5740985595342838 / 2 ^ 47"

definition lengthQR :: real where
  "lengthQR = 7893855193596403 / 2 ^ 47"

definition lineTotal :: real where
  "lineTotal = 6817420394469620 / 2 ^ 46"

definition lineDirect :: real where
  "lineDirect = 6817420394469621 / 2 ^ 46"

definition lineArrived :: State where
  "lineArrived =
     lineState\<lparr>routeEdges := [edgePQ, edgeQR],
               lastRouteStats := Some (routeStats [edgePQ, edgeQR]),
               finalMessage := Some MsgArrived\<rparr>"

section \<open>Auxiliary facts\<close>

lemmas ex_defs = rectangleNb_def rectangleState_def nodeA_def nodeB_def nodeC_def nodeD_def

text \<open>A left fold that keeps the best element so far and replaces it only by a strictly
  smaller one returns the first minimum of a non-empty list.\<close>

lemma foldl_first_min:
  fixes f :: "'a \<Rightarrow> real"
  assumes "xs \<noteq> []"
  shows "\<exists>ys m zs. xs = ys @ m # zs
           \<and> foldl (\<lambda>best c. case best of None \<Rightarrow> Some c
                     | Some b \<Rightarrow> if f c < f b then Some c else Some b) None xs = Some m
           \<and> (\<forall>y\<in>set ys. f m < f y) \<and> (\<forall>z\<in>set zs. f m \<le> f z)"
  using assms
proof (induction xs rule: rev_induct)
  case Nil
  then show ?case by simp
next
  case (snoc x xs)
  show ?case
  proof (cases "xs = []")
    case True
    have "[x] = [] @ x # []" by simp
    then show ?thesis
      using True by (intro exI [of _ "[]"] exI [of _ x]) simp
  next
    case False
    from snoc.IH [OF False] obtain ys m zs where
      split: "xs = ys @ m # zs" and
      res: "foldl (\<lambda>best c. case best of None \<Rightarrow> Some c
                     | Some b \<Rightarrow> if f c < f b then Some c else Some b) None xs = Some m" and
      before: "\<forall>y\<in>set ys. f m < f y" and after: "\<forall>z\<in>set zs. f m \<le> f z"
      by blast
    show ?thesis
    proof (cases "f x < f m")
      case True
      have "\<forall>y\<in>set xs. f x < f y"
        using split before after True by fastforce
      moreover have "xs @ [x] = xs @ x # []" by simp
      ultimately show ?thesis
        using res True by (intro exI [of _ xs] exI [of _ x] exI [of _ "[]"]) simp
    next
      case False
      then have "\<forall>z\<in>set (zs @ [x]). f m \<le> f z"
        using after by auto
      moreover have "xs @ [x] = ys @ m # (zs @ [x])"
        using split by simp
      ultimately show ?thesis
        using res False before
        by (intro exI [of _ ys] exI [of _ m] exI [of _ "zs @ [x]"]) simp
    qed
  qed
qed

lemma closerToDestination_eq:
  "closerToDestination destination =
     (\<lambda>best c. case best of None \<Rightarrow> Some c
        | Some b \<Rightarrow> if distance c destination < distance b destination then Some c else Some b)"
  by (intro ext) (simp add: closerToDestination_def)

lemma shorterJump_eq:
  "shorterJump current =
     (\<lambda>best c. case best of None \<Rightarrow> Some c
        | Some b \<Rightarrow> if distance current c < distance current b then Some c else Some b)"
  by (intro ext) (simp add: shorterJump_def)

lemma closestToDestination_first_min:
  assumes "candidates \<noteq> []"
  shows "\<exists>ys n zs. candidates = ys @ n # zs
           \<and> closestToDestination destination candidates = Some n
           \<and> (\<forall>y\<in>set ys. distance n destination < distance y destination)
           \<and> (\<forall>z\<in>set zs. distance n destination \<le> distance z destination)"
  unfolding closestToDestination_def closerToDestination_eq
  using foldl_first_min [OF assms, of "\<lambda>c. distance c destination"] by simp

lemma list_ex_None_iff: "list_ex (\<lambda>c. c = None) cs \<longleftrightarrow> None \<in> set cs"
  by (auto simp: list_ex_iff)

lemma map_Some_the: "None \<notin> set cs \<Longrightarrow> map Some (map the cs) = cs"
  by (induction cs) auto

lemma getNextNode_defined:
  assumes "3 \<le> length (nodes env)"
    and "neighborCandidates nb (nodes env) current \<noteq> []"
    and "None \<notin> set (neighborCandidates nb (nodes env) current)"
  shows "getNextNode nb env r current destination =
           chooseNeighbor (strategy env) r (routeEdges env) current destination
             (map the (neighborCandidates nb (nodes env) current))"
  using assms by (simp add: getNextNode_def Let_def list_ex_None_iff)

lemma getNextNode_Some_defined:
  assumes "getNextNode nb env r current destination = Inr (Some n)"
    and "strategy env \<noteq> Random"
  shows "3 \<le> length (nodes env)
       \<and> neighborCandidates nb (nodes env) current \<noteq> []
       \<and> None \<notin> set (neighborCandidates nb (nodes env) current)"
  using assms by (auto simp: getNextNode_def Let_def list_ex_None_iff split: if_splits)

lemma smallestJump_Some:
  assumes "smallestJump current destination candidates = Some n"
  shows "n \<in> set candidates
       \<and> distance n destination < distance current destination
       \<and> (\<forall>c\<in>set candidates. distance c destination < distance current destination
             \<longrightarrow> distance current n \<le> distance current c)"
proof -
  let ?valid = "filter (\<lambda>c. distance c destination < distance current destination) candidates"
  from assms have ne: "?valid \<noteq> []"
    by (auto simp: smallestJump_def Let_def split: if_splits)
  from assms ne have fold: "foldl (shorterJump current) None ?valid = Some n"
    by (simp add: smallestJump_def Let_def)
  from foldl_first_min [OF ne, of "\<lambda>c. distance current c"] obtain ys m zs where
    split: "?valid = ys @ m # zs" and
    res: "foldl (shorterJump current) None ?valid = Some m" and
    before: "\<forall>y\<in>set ys. distance current m < distance current y" and
    after: "\<forall>z\<in>set zs. distance current m \<le> distance current z"
    unfolding shorterJump_eq by blast
  from fold res have mn: "m = n" by simp
  have "n \<in> set ?valid"
    using split mn by simp
  moreover have "\<forall>c\<in>set ?valid. distance current n \<le> distance current c"
    using split before after mn by (subst split) fastforce
  ultimately show ?thesis by auto
qed

lemma smallestJump_None:
  "smallestJump current destination candidates = None \<longleftrightarrow>
     (\<forall>c\<in>set candidates. \<not> distance c destination < distance current destination)"
proof -
  let ?valid = "filter (\<lambda>c. distance c destination < distance current destination) candidates"
  show ?thesis
  proof (cases "?valid = []")
    case True
    then show ?thesis
      by (simp add: smallestJump_def Let_def filter_empty_conv)
  next
    case False
    from foldl_first_min [OF False, of "\<lambda>c. distance current c"]
    have "foldl (shorterJump current) None ?valid \<noteq> None"
      unfolding shorterJump_eq by auto
    with False show ?thesis
      by (auto simp: smallestJump_def Let_def filter_empty_conv)
  qed
qed


section \<open>Claims about the strategies\<close>

text \<open>
  C1. With the \<open>smallestJump\<close> strategy, \<open>getNextNode\<close> returns a node only if it is a
  neighbour of the current node that is strictly closer to the destination than the
  current node is, and no strictly closer neighbour is at a smaller distance from the
  current node. If no neighbour is strictly closer (and every neighbour index denotes a
  node), the result is \<open>null\<close>, whether or not there are neighbours; if some neighbour is
  strictly closer, a node is returned.
\<close>

theorem smallestJump_strictly_closer:
  assumes "strategy env = SmallestJump"
  shows "(getNextNode nb env r current destination = Inr (Some n) \<longrightarrow>
            Some n \<in> set (neighborCandidates nb (nodes env) current)
          \<and> distance n destination < distance current destination
          \<and> (\<forall>c. Some c \<in> set (neighborCandidates nb (nodes env) current)
                 \<and> distance c destination < distance current destination
                 \<longrightarrow> distance current n \<le> distance current c))
       \<and> (None \<notin> set (neighborCandidates nb (nodes env) current)
          \<and> (\<forall>c. Some c \<in> set (neighborCandidates nb (nodes env) current)
                 \<longrightarrow> \<not> distance c destination < distance current destination)
          \<longrightarrow> getNextNode nb env r current destination = Inr None)
       \<and> (3 \<le> length (nodes env)
          \<and> None \<notin> set (neighborCandidates nb (nodes env) current)
          \<and> (\<exists>c. Some c \<in> set (neighborCandidates nb (nodes env) current)
                 \<and> distance c destination < distance current destination)
          \<longrightarrow> (\<exists>m. getNextNode nb env r current destination = Inr (Some m)))"
proof (intro conjI impI)
  let ?cs = "neighborCandidates nb (nodes env) current"
  {
    assume res: "getNextNode nb env r current destination = Inr (Some n)"
    from getNextNode_Some_defined [OF res] assms
    have def: "3 \<le> length (nodes env)" "?cs \<noteq> []" "None \<notin> set ?cs"
      by simp_all
    from res getNextNode_defined [OF def, of r destination] assms
    have sj: "smallestJump current destination (map the ?cs) = Some n"
      by (simp add: chooseNeighbor_def)
    have mem: "\<And>c. Some c \<in> set ?cs \<longleftrightarrow> c \<in> set (map the ?cs)"
      using def(3) by (metis map_Some_the image_iff list.set_map option.sel option.inject)
    from smallestJump_Some [OF sj] mem
    show "Some n \<in> set ?cs" by blast
    from smallestJump_Some [OF sj]
    show "distance n destination < distance current destination" by blast
    from smallestJump_Some [OF sj] mem
    show "\<forall>c. Some c \<in> set ?cs \<and> distance c destination < distance current destination
             \<longrightarrow> distance current n \<le> distance current c"
      by blast
  }
  {
    assume h: "None \<notin> set ?cs \<and> (\<forall>c. Some c \<in> set ?cs
                 \<longrightarrow> \<not> distance c destination < distance current destination)"
    show "getNextNode nb env r current destination = Inr None"
    proof (cases "3 \<le> length (nodes env) \<and> ?cs \<noteq> []")
      case False
      then show ?thesis
        by (auto simp: getNextNode_def Let_def)
    next
      case True
      have mem: "\<And>c. c \<in> set (map the ?cs) \<Longrightarrow> Some c \<in> set ?cs"
        using h by (metis map_Some_the image_iff list.set_map)
      have "smallestJump current destination (map the ?cs) = None"
        unfolding smallestJump_None using h mem by blast
      with True h assms show ?thesis
        by (simp add: getNextNode_defined chooseNeighbor_def)
    qed
  }
  {
    assume h: "3 \<le> length (nodes env) \<and> None \<notin> set ?cs
          \<and> (\<exists>c. Some c \<in> set ?cs \<and> distance c destination < distance current destination)"
    then obtain c where c: "Some c \<in> set ?cs"
      "distance c destination < distance current destination" by blast
    then have "c \<in> set (map the ?cs)" by force
    with c have "smallestJump current destination (map the ?cs) \<noteq> None"
      unfolding smallestJump_None by blast
    then obtain m where "smallestJump current destination (map the ?cs) = Some m" by blast
    moreover have "?cs \<noteq> []" using c by auto
    ultimately show "\<exists>m. getNextNode nb env r current destination = Inr (Some m)"
      using h assms by (simp add: getNextNode_defined chooseNeighbor_def)
  }
qed

theorem smallestJump_strictly_closer_witness:
  "getNextNode rectangleNb (rectangleState SmallestJump) 0 nodeA nodeD = Inr (Some nodeB)
   \<and> Some nodeB \<in> set (neighborCandidates rectangleNb (nodes (rectangleState SmallestJump)) nodeA)
   \<and> distance nodeB nodeD < distance nodeA nodeD
   \<and> distance nodeA nodeB \<le> distance nodeA nodeC
   \<and> getNextNode rectangleNb (rectangleState SmallestJump) 0 nodeA nodeA = Inr None"
proof -
  let ?env = "rectangleState SmallestJump"
  have strat: "strategy ?env = SmallestJump"
    by (simp add: rectangleState_def)
  have res: "getNextNode rectangleNb ?env 0 nodeA nodeD = Inr (Some nodeB)"
    by (simp add: getNextNode_def neighborCandidates_def findIndex_def chooseNeighbor_def
        smallestJump_def shorterJump_def distance_def ex_defs)
  have cands: "neighborCandidates rectangleNb (nodes ?env) nodeA
                 = [Some nodeB, Some nodeD, Some nodeC]"
    by (simp add: neighborCandidates_def findIndex_def ex_defs)
  have closer: "distance nodeC nodeD < distance nodeA nodeD"
    by (simp add: distance_def ex_defs)
  have dead: "\<forall>c. Some c \<in> set (neighborCandidates rectangleNb (nodes ?env) nodeA)
                 \<longrightarrow> \<not> distance c nodeA < distance nodeA nodeA"
    by (simp add: distance_def Let_def not_less)
  note thm1 = smallestJump_strictly_closer [OF strat, of rectangleNb 0 nodeA nodeD nodeB]
  note thm2 = smallestJump_strictly_closer [OF strat, of rectangleNb 0 nodeA nodeA nodeB]
  from thm1 res cands closer have
    "Some nodeB \<in> set (neighborCandidates rectangleNb (nodes ?env) nodeA)
     \<and> distance nodeB nodeD < distance nodeA nodeD
     \<and> distance nodeA nodeB \<le> distance nodeA nodeC"
    by simp
  moreover from thm2 dead cands have
    "getNextNode rectangleNb ?env 0 nodeA nodeA = Inr None"
    by simp
  ultimately show ?thesis using res by simp
qed

text \<open>
  C2. With the \<open>closestToDestination\<close> strategy, the node that \<open>getNextNode\<close> returns
  is a neighbour whose distance to the destination is at most that of every neighbour and
  strictly less than that of every neighbour enumerated before it (the first minimum in
  enumeration order wins a tie); a node is returned whenever the neighbour sequence is
  not empty; and the result depends on the node list, the current node and the
  destination only, not on the random draw or on the rest of the state.
\<close>

theorem closestToDestination_first_minimum:
  assumes "strategy env = ClosestToDestination"
  shows "(getNextNode nb env r current destination = Inr (Some n) \<longrightarrow>
            (\<forall>c. Some c \<in> set (neighborCandidates nb (nodes env) current)
                 \<longrightarrow> distance n destination \<le> distance c destination))
       \<and> (getNextNode nb env r current destination = Inr (Some n) \<longrightarrow>
            (\<exists>ys zs. neighborCandidates nb (nodes env) current = map Some (ys @ n # zs)
               \<and> (\<forall>y\<in>set ys. distance n destination < distance y destination)
               \<and> (\<forall>z\<in>set zs. distance n destination \<le> distance z destination)))
       \<and> (3 \<le> length (nodes env)
          \<and> neighborCandidates nb (nodes env) current \<noteq> []
          \<and> None \<notin> set (neighborCandidates nb (nodes env) current)
          \<longrightarrow> (\<exists>m. getNextNode nb env r current destination = Inr (Some m)))
       \<and> (nodes env' = nodes env \<and> strategy env' = ClosestToDestination
          \<longrightarrow> getNextNode nb env' r' current destination
                = getNextNode nb env r current destination)"
proof (intro conjI impI)
  let ?cs = "neighborCandidates nb (nodes env) current"
  have first: "\<exists>ys zs. ?cs = map Some (ys @ n # zs)
               \<and> (\<forall>y\<in>set ys. distance n destination < distance y destination)
               \<and> (\<forall>z\<in>set zs. distance n destination \<le> distance z destination)"
    if res: "getNextNode nb env r current destination = Inr (Some n)"
  proof -
    from getNextNode_Some_defined [OF res] assms
    have def: "3 \<le> length (nodes env)" "?cs \<noteq> []" "None \<notin> set ?cs"
      by simp_all
    from res getNextNode_defined [OF def, of r destination] assms
    have best: "closestToDestination destination (map the ?cs) = Some n"
      by (simp add: chooseNeighbor_def)
    from def(2) have "map the ?cs \<noteq> []" by simp
    from closestToDestination_first_min [OF this, of destination] best
    obtain ys zs where split: "map the ?cs = ys @ n # zs"
      and before: "\<forall>y\<in>set ys. distance n destination < distance y destination"
      and after: "\<forall>z\<in>set zs. distance n destination \<le> distance z destination"
      by auto
    from split have "map Some (map the ?cs) = map Some (ys @ n # zs)" by simp
    with map_Some_the [OF def(3)] have "?cs = map Some (ys @ n # zs)"
      by simp
    with before after show ?thesis
      by blast
  qed
  {
    assume res: "getNextNode nb env r current destination = Inr (Some n)"
    from first [OF res] show "\<exists>ys zs. ?cs = map Some (ys @ n # zs)
               \<and> (\<forall>y\<in>set ys. distance n destination < distance y destination)
               \<and> (\<forall>z\<in>set zs. distance n destination \<le> distance z destination)" .
    from first [OF res] obtain ys zs where split: "?cs = map Some (ys @ n # zs)"
      and before: "\<forall>y\<in>set ys. distance n destination < distance y destination"
      and after: "\<forall>z\<in>set zs. distance n destination \<le> distance z destination"
      by blast
    show "\<forall>c. Some c \<in> set ?cs \<longrightarrow> distance n destination \<le> distance c destination"
    proof (intro allI impI)
      fix c
      assume "Some c \<in> set ?cs"
      then have "c \<in> set ys \<or> c = n \<or> c \<in> set zs"
        unfolding split by auto
      with before after show "distance n destination \<le> distance c destination"
        by fastforce
    qed
  }
  {
    assume h: "3 \<le> length (nodes env) \<and> ?cs \<noteq> [] \<and> None \<notin> set ?cs"
    then have "map the ?cs \<noteq> []" by simp
    from closestToDestination_first_min [OF this, of destination]
    obtain m where "closestToDestination destination (map the ?cs) = Some m" by blast
    with h assms show "\<exists>m. getNextNode nb env r current destination = Inr (Some m)"
      by (simp add: getNextNode_defined chooseNeighbor_def)
  }
  {
    assume "nodes env' = nodes env \<and> strategy env' = ClosestToDestination"
    with assms show "getNextNode nb env' r' current destination
                = getNextNode nb env r current destination"
      by (simp add: getNextNode_def chooseNeighbor_def Let_def)
  }
qed

theorem closestToDestination_first_minimum_witness:
  "getNextNode rectangleNb (rectangleState ClosestToDestination) 0 nodeA nodeB
     = Inr (Some nodeB)
   \<and> distance nodeB nodeB \<le> distance nodeC nodeB
   \<and> (\<exists>ys zs. [Some nodeB, Some nodeD, Some nodeC] = map Some (ys @ nodeB # zs))
   \<and> getNextNode rectangleNb
        ((rectangleState ClosestToDestination)\<lparr>routeEdges := [edgeAB]\<rparr>) 1 nodeA nodeB
     = Inr (Some nodeB)"
proof -
  let ?env = "rectangleState ClosestToDestination"
  let ?env' = "?env\<lparr>routeEdges := [edgeAB]\<rparr>"
  have strat: "strategy ?env = ClosestToDestination"
    by (simp add: rectangleState_def)
  have cands: "neighborCandidates rectangleNb (nodes ?env) nodeA
                 = [Some nodeB, Some nodeD, Some nodeC]"
    by (simp add: neighborCandidates_def findIndex_def ex_defs)
  have size: "3 \<le> length (nodes ?env)"
    by (simp add: rectangleState_def)
  have same: "nodes ?env' = nodes ?env \<and> strategy ?env' = ClosestToDestination"
    by (simp add: rectangleState_def)
  have res: "getNextNode rectangleNb ?env 0 nodeA nodeB = Inr (Some nodeB)"
    by (simp add: getNextNode_def neighborCandidates_def findIndex_def chooseNeighbor_def
        closestToDestination_def closerToDestination_def distance_def ex_defs)
  note inst = closestToDestination_first_minimum
    [OF strat, of rectangleNb 0 nodeA nodeB nodeB "?env'" 1]
  from inst [THEN conjunct1] res cands have least: "distance nodeB nodeB \<le> distance nodeC nodeB"
    by simp
  from inst [THEN conjunct2] res cands size same have
    split: "\<exists>ys zs. [Some nodeB, Some nodeD, Some nodeC] = map Some (ys @ nodeB # zs)
       \<and> (\<forall>y\<in>set ys. distance nodeB nodeB < distance y nodeB)
       \<and> (\<forall>z\<in>set zs. distance nodeB nodeB \<le> distance z nodeB)"
    and det: "getNextNode rectangleNb ?env' 1 nodeA nodeB = Inr (Some nodeB)"
    by (simp_all del: map_append list.map)
  from split obtain ys zs where
    "[Some nodeB, Some nodeD, Some nodeC] = map Some (ys @ nodeB # zs)"
    by (elim exE conjE)
  then have "\<exists>ys zs. [Some nodeB, Some nodeD, Some nodeC] = map Some (ys @ nodeB # zs)"
    by (intro exI)
  with res det least show ?thesis
    by (simp del: map_append list.map)
qed

lemma pick_in_set:
  assumes "pick r xs = Some x"
  shows "x \<in> set xs"
proof -
  let ?i = "\<lfloor>r * real (length xs)\<rfloor>"
  from assms have range: "0 \<le> ?i" "?i < int (length xs)" and x: "x = xs ! nat ?i"
    by (auto simp: pick_def Let_def split: if_splits)
  from range have "nat ?i < length xs"
    by linarith
  with x show ?thesis
    by simp
qed

lemma pick_Some:
  assumes "0 \<le> r" and "r < 1" and "xs \<noteq> []"
  shows "\<exists>x. pick r xs = Some x"
proof -
  have len: "0 < real (length xs)"
    using assms(3) by simp
  have "0 \<le> r * real (length xs)"
    using assms(1) by simp
  then have lo: "0 \<le> \<lfloor>r * real (length xs)\<rfloor>"
    by simp
  have "r * real (length xs) < 1 * real (length xs)"
    using assms(2) len by (intro mult_strict_right_mono)
  then have "r * real (length xs) < real_of_int (int (length xs))"
    by simp
  then have hi: "\<lfloor>r * real (length xs)\<rfloor> < int (length xs)"
    by (simp only: floor_less_iff)
  from lo hi show ?thesis
    by (simp add: pick_def Let_def)
qed

lemma randomUnused_Some:
  assumes "randomUnused r edges current candidates = Some n"
  shows "n \<in> set candidates \<and> \<not> edgeTraversed edges current n"
proof -
  from assms have "pick r (filter (\<lambda>c. \<not> edgeTraversed edges current c) candidates) = Some n"
    by (simp add: randomUnused_def Let_def split: if_splits)
  from pick_in_set [OF this] show ?thesis by simp
qed

text \<open>
  The \<open>random\<close> arm filters on the list \<open>routeEdges\<close> that \<open>getNextNode\<close> reads, the one of the
  state it closes over: the node returned is a neighbour that no edge of that list joins to
  the current node, in either direction; if every neighbour is joined to the current node
  by an edge of that list, the result is \<open>null\<close>; and with a draw in \<open>[0, 1)\<close> a node is
  returned as soon as one neighbour is not. What this list is during a run is another
  matter, taken up in the last section.
\<close>

lemma random_filters_closure_route:
  assumes "strategy env = Random"
  shows "(getNextNode nb env r current destination = Inr (Some n) \<longrightarrow>
            Some n \<in> set (neighborCandidates nb (nodes env) current)
          \<and> \<not> (\<exists>edge\<in>set (routeEdges env).
                  (startId edge = nid current \<and> endId edge = nid n)
                \<or> (startId edge = nid n \<and> endId edge = nid current)))
       \<and> (None \<notin> set (neighborCandidates nb (nodes env) current)
          \<and> (\<forall>c. Some c \<in> set (neighborCandidates nb (nodes env) current)
                 \<longrightarrow> (\<exists>edge\<in>set (routeEdges env).
                        (startId edge = nid current \<and> endId edge = nid c)
                      \<or> (startId edge = nid c \<and> endId edge = nid current)))
          \<longrightarrow> getNextNode nb env r current destination = Inr None)
       \<and> (0 \<le> r \<and> r < 1 \<and> 3 \<le> length (nodes env)
          \<and> None \<notin> set (neighborCandidates nb (nodes env) current)
          \<and> (\<exists>c. Some c \<in> set (neighborCandidates nb (nodes env) current)
                 \<and> \<not> (\<exists>edge\<in>set (routeEdges env).
                        (startId edge = nid current \<and> endId edge = nid c)
                      \<or> (startId edge = nid c \<and> endId edge = nid current)))
          \<longrightarrow> (\<exists>m. getNextNode nb env r current destination = Inr (Some m)))"
proof (intro conjI impI)
  let ?cs = "neighborCandidates nb (nodes env) current"
  have trav: "\<And>c. edgeTraversed (routeEdges env) current c \<longleftrightarrow>
          (\<exists>edge\<in>set (routeEdges env).
              (startId edge = nid current \<and> endId edge = nid c)
            \<or> (startId edge = nid c \<and> endId edge = nid current))"
    by (simp add: edgeTraversed_def list_ex_iff)
  {
    assume res: "getNextNode nb env r current destination = Inr (Some n)"
    have "Some n \<in> set ?cs \<and> \<not> edgeTraversed (routeEdges env) current n"
    proof (cases "None \<in> set ?cs")
      case True
      with res assms have empty: "routeEdges env = []"
        and "(case pick r ?cs of None \<Rightarrow> None | Some c \<Rightarrow> c) = Some n"
        by (auto simp: getNextNode_def Let_def list_ex_None_iff split: if_splits)
      then have "pick r ?cs = Some (Some n)"
        by (simp split: option.splits)
      from pick_in_set [OF this] empty show ?thesis
        by (simp add: edgeTraversed_def)
    next
      case False
      with res assms have
        "randomUnused r (routeEdges env) current (map the ?cs) = Some n"
        by (auto simp: getNextNode_def Let_def list_ex_None_iff chooseNeighbor_def
            split: if_splits)
      from randomUnused_Some [OF this] map_Some_the [OF False] show ?thesis
        by (metis image_eqI list.set_map)
    qed
    then show "Some n \<in> set ?cs"
      and "\<not> (\<exists>edge\<in>set (routeEdges env).
                  (startId edge = nid current \<and> endId edge = nid n)
                \<or> (startId edge = nid n \<and> endId edge = nid current))"
      by (simp_all add: trav)
  }
  {
    assume h: "None \<notin> set ?cs \<and> (\<forall>c. Some c \<in> set ?cs
                 \<longrightarrow> (\<exists>edge\<in>set (routeEdges env).
                        (startId edge = nid current \<and> endId edge = nid c)
                      \<or> (startId edge = nid c \<and> endId edge = nid current)))"
    have mem: "\<And>c. c \<in> set (map the ?cs) \<Longrightarrow> Some c \<in> set ?cs"
      using h by (metis map_Some_the image_iff list.set_map)
    have "filter (\<lambda>c. \<not> edgeTraversed (routeEdges env) current c) (map the ?cs) = []"
      unfolding filter_empty_conv trav using h mem by blast
    then have "randomUnused r (routeEdges env) current (map the ?cs) = None"
      by (simp add: randomUnused_def)
    with h assms show "getNextNode nb env r current destination = Inr None"
      by (simp add: getNextNode_def Let_def list_ex_None_iff chooseNeighbor_def)
  }
  {
    assume h: "0 \<le> r \<and> r < 1 \<and> 3 \<le> length (nodes env) \<and> None \<notin> set ?cs
          \<and> (\<exists>c. Some c \<in> set ?cs
                 \<and> \<not> (\<exists>edge\<in>set (routeEdges env).
                        (startId edge = nid current \<and> endId edge = nid c)
                      \<or> (startId edge = nid c \<and> endId edge = nid current)))"
    then obtain c where c: "Some c \<in> set ?cs" "\<not> edgeTraversed (routeEdges env) current c"
      unfolding trav by blast
    then have "c \<in> set (map the ?cs)" by force
    with c have ne: "filter (\<lambda>c. \<not> edgeTraversed (routeEdges env) current c) (map the ?cs) \<noteq> []"
      by (auto simp: filter_empty_conv)
    from pick_Some [OF _ _ ne, of r] h obtain m where
      "pick r (filter (\<lambda>c. \<not> edgeTraversed (routeEdges env) current c) (map the ?cs)) = Some m"
      by blast
    with ne have "randomUnused r (routeEdges env) current (map the ?cs) = Some m"
      by (simp add: randomUnused_def)
    moreover have "?cs \<noteq> []" using c by auto
    ultimately show "\<exists>m. getNextNode nb env r current destination = Inr (Some m)"
      using h assms by (simp add: getNextNode_defined chooseNeighbor_def)
  }
qed

lemma random_filters_closure_route_rectangle:
  "getNextNode rectangleNb ((rectangleState Random)\<lparr>routeEdges := [edgeAB]\<rparr>) (1 / 2)
       nodeA nodeD = Inr (Some nodeC)
   \<and> Some nodeC \<in> set (neighborCandidates rectangleNb (nodes (rectangleState Random)) nodeA)
   \<and> \<not> (startId edgeAB = nid nodeA \<and> endId edgeAB = nid nodeC)
   \<and> \<not> (startId edgeAB = nid nodeC \<and> endId edgeAB = nid nodeA)
   \<and> getNextNode rectangleNb ((rectangleState Random)\<lparr>routeEdges := [edgeAB]\<rparr>) (1 / 2)
       nodeB nodeD = Inr (Some nodeD)
   \<and> getNextNode rectangleNb
        ((rectangleState Random)\<lparr>routeEdges := [edgeAB, edgeAB\<lparr>startId := 4\<rparr>]\<rparr>) (1 / 2)
       nodeB nodeD = Inr None"
proof -
  let ?env = "(rectangleState Random)\<lparr>routeEdges := [edgeAB]\<rparr>"
  let ?env2 = "(rectangleState Random)\<lparr>routeEdges := [edgeAB, edgeAB\<lparr>startId := 4\<rparr>]\<rparr>"
  have strat: "strategy ?env = Random" "strategy ?env2 = Random"
    by (simp_all add: rectangleState_def)
  have res: "getNextNode rectangleNb ?env (1 / 2) nodeA nodeD = Inr (Some nodeC)"
    by (simp add: getNextNode_def neighborCandidates_def findIndex_def chooseNeighbor_def
        randomUnused_def pick_def edgeTraversed_def ex_defs edgeAB_def)
  have candsA: "neighborCandidates rectangleNb (nodes ?env) nodeA
                 = [Some nodeB, Some nodeD, Some nodeC]"
    and candsB: "neighborCandidates rectangleNb (nodes ?env) nodeB = [Some nodeA, Some nodeD]"
    and candsB2: "neighborCandidates rectangleNb (nodes ?env2) nodeB = [Some nodeA, Some nodeD]"
    by (simp_all add: neighborCandidates_def findIndex_def ex_defs)
  have nodesEq: "nodes ?env = nodes (rectangleState Random)"
    by simp
  have ids: "nid nodeA = 1" "nid nodeB = 2" "nid nodeC = 3" "nid nodeD = 4"
    "startId edgeAB = 1" "endId edgeAB = 2"
    by (simp_all add: ex_defs edgeAB_def)
  have size: "3 \<le> length (nodes ?env)"
    by (simp add: rectangleState_def)
  note inst1 = random_filters_closure_route [OF strat(1), of rectangleNb "1 / 2" nodeA nodeD nodeC]
  note inst2 = random_filters_closure_route [OF strat(2), of rectangleNb "1 / 2" nodeB nodeD nodeC]
  from inst1 res candsA ids have
    "Some nodeC \<in> set (neighborCandidates rectangleNb (nodes ?env) nodeA)
     \<and> \<not> (startId edgeAB = nid nodeA \<and> endId edgeAB = nid nodeC)
     \<and> \<not> (startId edgeAB = nid nodeC \<and> endId edgeAB = nid nodeA)"
    by simp
  moreover from inst2 candsB2 ids have
    "getNextNode rectangleNb ?env2 (1 / 2) nodeB nodeD = Inr None"
    by simp
  moreover have "getNextNode rectangleNb ?env (1 / 2) nodeB nodeD = Inr (Some nodeD)"
    by (simp add: getNextNode_def neighborCandidates_def findIndex_def chooseNeighbor_def
        randomUnused_def pick_def edgeTraversed_def ex_defs edgeAB_def)
  ultimately show ?thesis
    using res nodesEq by simp
qed

section \<open>Claims about the topology state\<close>

text \<open>
  C10. After \<open>updateNodePosition(id, x, y)\<close>, whatever \<open>x\<close> and \<open>y\<close> are, every node with
  that identity is at the requested position clamped by the operation itself, so has its
  x-coordinate in \<open>[baseRadius, svgWidth - baseRadius]\<close> and its
  y-coordinate in \<open>[baseRadius, svgHeight - baseRadius]\<close>, and keeps its identity and
  colour; every other node is unchanged, and the node list keeps its length and order.
\<close>

theorem updateNodePosition_clamps:
  "length (nodes (updateNodePosition i x y st)) = length (nodes st)
   \<and> (\<forall>k < length (nodes st).
        (nid (nodes st ! k) = i \<longrightarrow>
            nx (nodes (updateNodePosition i x y st) ! k)
              = max baseRadius (min x (svgWidth - baseRadius))
          \<and> ny (nodes (updateNodePosition i x y st) ! k)
              = max baseRadius (min y (svgHeight - baseRadius))
          \<and> baseRadius \<le> nx (nodes (updateNodePosition i x y st) ! k)
          \<and> nx (nodes (updateNodePosition i x y st) ! k) \<le> svgWidth - baseRadius
          \<and> baseRadius \<le> ny (nodes (updateNodePosition i x y st) ! k)
          \<and> ny (nodes (updateNodePosition i x y st) ! k) \<le> svgHeight - baseRadius
          \<and> nid (nodes (updateNodePosition i x y st) ! k) = i
          \<and> ncolor (nodes (updateNodePosition i x y st) ! k) = ncolor (nodes st ! k))
      \<and> (nid (nodes st ! k) \<noteq> i \<longrightarrow>
            nodes (updateNodePosition i x y st) ! k = nodes st ! k))"
  by (simp add: updateNodePosition_def Let_def svgWidth_def svgHeight_def baseRadius_def)

theorem updateNodePosition_clamps_witness:
  "nid (nodes (rectangleState Random) ! 1) = 2
   \<and> baseRadius \<le> nx (nodes (updateNodePosition 2 1000 (- 3) (rectangleState Random)) ! 1)
   \<and> nx (nodes (updateNodePosition 2 1000 (- 3) (rectangleState Random)) ! 1)
        \<le> svgWidth - baseRadius
   \<and> baseRadius \<le> ny (nodes (updateNodePosition 2 1000 (- 3) (rectangleState Random)) ! 1)
   \<and> ny (nodes (updateNodePosition 2 1000 (- 3) (rectangleState Random)) ! 1)
        \<le> svgHeight - baseRadius
   \<and> nodes (updateNodePosition 2 1000 (- 3) (rectangleState Random)) ! 0 = nodeA"
proof -
  have len: "1 < length (nodes (rectangleState Random))"
    "0 < length (nodes (rectangleState Random))"
    by (simp_all add: rectangleState_def)
  have ids: "nid (nodes (rectangleState Random) ! 1) = 2"
    "nid (nodes (rectangleState Random) ! 0) \<noteq> 2"
    "nodes (rectangleState Random) ! 0 = nodeA"
    by (simp_all add: ex_defs)
  note moved = updateNodePosition_clamps
    [of 2 1000 "- 3" "rectangleState Random", THEN conjunct2, THEN spec, THEN mp]
  from moved [OF len(1), THEN conjunct1, THEN mp, OF ids(1)] have second:
    "baseRadius \<le> nx (nodes (updateNodePosition 2 1000 (- 3) (rectangleState Random)) ! 1)
     \<and> nx (nodes (updateNodePosition 2 1000 (- 3) (rectangleState Random)) ! 1)
          \<le> svgWidth - baseRadius
     \<and> baseRadius \<le> ny (nodes (updateNodePosition 2 1000 (- 3) (rectangleState Random)) ! 1)
     \<and> ny (nodes (updateNodePosition 2 1000 (- 3) (rectangleState Random)) ! 1)
          \<le> svgHeight - baseRadius"
    by blast
  from moved [OF len(2), THEN conjunct2, THEN mp, OF ids(2)] ids(3) have first:
    "nodes (updateNodePosition 2 1000 (- 3) (rectangleState Random)) ! 0 = nodeA"
    by simp
  from ids(1) second first show ?thesis
    by blast
qed

section \<open>Claims about starting and running a simulation\<close>

text \<open>
  C6. \<open>startRoutingSimulation\<close> with fewer than two active nodes (nodes whose colour is not
  the inactive one), or with a chosen source that no other active node shares its colour
  with, returns at once with the reason as the message; and a start that reports a reason
  leaves the packet, the route, the started flag, the statistics and the nodes as they
  were: no packet is created, and an idle state stays idle.
\<close>

theorem startRoutingSimulation_failure:
  "(length (filter (\<lambda>n. ncolor n \<noteq> inactiveColor) (nodes st)) < 2 \<longrightarrow>
      startRoutingSimulation r1 r2 st = Inr (st\<lparr>finalMessage := Some MsgNeedTwoActiveNodes\<rparr>))
   \<and> (2 \<le> length (filter (\<lambda>n. ncolor n \<noteq> inactiveColor) (nodes st))
      \<and> pick r1 (filter (\<lambda>n. ncolor n \<noteq> inactiveColor) (nodes st)) = Some source
      \<and> (\<forall>n\<in>set (nodes st). ncolor n \<noteq> inactiveColor \<and> ncolor n = ncolor source
             \<longrightarrow> nid n = nid source)
      \<longrightarrow> startRoutingSimulation r1 r2 st
            = Inr (st\<lparr>finalMessage := Some (MsgNoDestination (ncolor source))\<rparr>))
   \<and> (startRoutingSimulation r1 r2 st = Inr st' \<and> finalMessage st' \<noteq> Some MsgEmpty
      \<longrightarrow> packet st' = packet st \<and> routeEdges st' = routeEdges st
        \<and> simulationStarted st' = simulationStarted st
        \<and> lastRouteStats st' = lastRouteStats st \<and> nodes st' = nodes st)"
proof (intro conjI impI)
  let ?active = "filter (\<lambda>n. ncolor n \<noteq> inactiveColor) (nodes st)"
  {
    assume "length ?active < 2"
    then show "startRoutingSimulation r1 r2 st
                 = Inr (st\<lparr>finalMessage := Some MsgNeedTwoActiveNodes\<rparr>)"
      by (simp add: startRoutingSimulation_def Let_def)
  }
  {
    assume h: "2 \<le> length ?active \<and> pick r1 ?active = Some source
      \<and> (\<forall>n\<in>set (nodes st). ncolor n \<noteq> inactiveColor \<and> ncolor n = ncolor source
             \<longrightarrow> nid n = nid source)"
    then have "filter (\<lambda>n. ncolor n = ncolor source \<and> nid n \<noteq> nid source) ?active = []"
      by (auto simp: filter_empty_conv)
    with h show "startRoutingSimulation r1 r2 st
            = Inr (st\<lparr>finalMessage := Some (MsgNoDestination (ncolor source))\<rparr>)"
      by (simp add: startRoutingSimulation_def Let_def)
  }
  {
    assume "startRoutingSimulation r1 r2 st = Inr st' \<and> finalMessage st' \<noteq> Some MsgEmpty"
    then have "(\<exists>m. st' = st\<lparr>finalMessage := Some m\<rparr>)"
      by (auto simp: startRoutingSimulation_def Let_def split: if_splits option.splits)
    then show "packet st' = packet st" and "routeEdges st' = routeEdges st"
      and "simulationStarted st' = simulationStarted st"
      and "lastRouteStats st' = lastRouteStats st" and "nodes st' = nodes st"
      by auto
  }
qed

theorem startRoutingSimulation_failure_witness:
  "startRoutingSimulation 0 0 oneRedState
     = Inr (oneRedState\<lparr>finalMessage := Some MsgNeedTwoActiveNodes\<rparr>)
   \<and> startRoutingSimulation 0 0 redBlueState
     = Inr (redBlueState\<lparr>finalMessage := Some (MsgNoDestination ''red'')\<rparr>)
   \<and> packet (redBlueState\<lparr>finalMessage := Some (MsgNoDestination ''red'')\<rparr>)
       = packet redBlueState"
proof -
  have one: "length (filter (\<lambda>n. ncolor n \<noteq> inactiveColor) (nodes oneRedState)) < 2"
    by (simp add: oneRedState_def ex_defs inactiveColor_def)
  have two: "2 \<le> length (filter (\<lambda>n. ncolor n \<noteq> inactiveColor) (nodes redBlueState))"
    and src: "pick 0 (filter (\<lambda>n. ncolor n \<noteq> inactiveColor) (nodes redBlueState)) = Some nodeA"
    and alone: "\<forall>n\<in>set (nodes redBlueState).
                  ncolor n \<noteq> inactiveColor \<and> ncolor n = ncolor nodeA \<longrightarrow> nid n = nid nodeA"
    by (simp_all add: redBlueState_def ex_defs inactiveColor_def pick_def)
  have red: "ncolor nodeA = ''red''" and idle: "packet redBlueState = None"
    by (simp_all add: redBlueState_def ex_defs)
  note inst1 = startRoutingSimulation_failure [of oneRedState 0 0 nodeA, THEN conjunct1]
  note inst2 = startRoutingSimulation_failure
    [of redBlueState 0 0 nodeA
       "redBlueState\<lparr>finalMessage := Some (MsgNoDestination ''red'')\<rparr>"]
  from inst1 one have r1:
    "startRoutingSimulation 0 0 oneRedState
       = Inr (oneRedState\<lparr>finalMessage := Some MsgNeedTwoActiveNodes\<rparr>)"
    by (rule mp)
  from inst2 [THEN conjunct2, THEN conjunct1] two src alone have
    "startRoutingSimulation 0 0 redBlueState
       = Inr (redBlueState\<lparr>finalMessage := Some (MsgNoDestination (ncolor nodeA))\<rparr>)"
    by blast
  with red have r2:
    "startRoutingSimulation 0 0 redBlueState
       = Inr (redBlueState\<lparr>finalMessage := Some (MsgNoDestination ''red'')\<rparr>)"
    by simp
  have "finalMessage (redBlueState\<lparr>finalMessage := Some (MsgNoDestination ''red'')\<rparr>)
          \<noteq> Some MsgEmpty"
    by simp
  with inst2 [THEN conjunct2, THEN conjunct2] r2 have
    "packet (redBlueState\<lparr>finalMessage := Some (MsgNoDestination ''red'')\<rparr>)
       = packet redBlueState"
    by blast
  with r1 r2 show ?thesis
    by (intro conjI)
qed

text \<open>
  C7. The claim that a start request is rejected while a run is active fails:
  \<open>startRoutingSimulation\<close> never reads the packet or the started flag. On the rectangle,
  with the packet in transit from \<open>nodeB\<close> to \<open>nodeD\<close> and one edge on the route, a start
  installs a new packet, from \<open>nodeA\<close> to \<open>nodeD\<close>, empties the route and reports no
  reason.
\<close>

theorem start_while_active_counterexample:
  "packet transitState = Some \<lparr>pkt_currentNode = nodeB, pkt_destination = nodeD\<rparr>
   \<and> routeEdges transitState = [edgeAB]
   \<and> simulationStarted transitState
   \<and> startRoutingSimulation 0 0 transitState
     = Inr (transitState\<lparr>finalMessage := Some MsgEmpty, routeEdges := [],
              lastRouteStats := None,
              packet := Some \<lparr>pkt_currentNode = nodeA, pkt_destination = nodeD\<rparr>,
              simulationStarted := False\<rparr>)"
  by (simp add: startRoutingSimulation_def transitState_def ex_defs inactiveColor_def pick_def)

text \<open>
  C7, as the code has it. With both draws in \<open>[0, 1)\<close>, \<open>startRoutingSimulation\<close> has
  exactly three outcomes, none of which depends on a run being active: fewer than two
  active nodes, and only the message changes; a chosen source with no active partner of
  its colour, and only the message changes; otherwise the packet is replaced by a new one
  (the chosen source and an active node of the same colour and another identity), the
  route is emptied, the statistics are cleared and the started flag is reset.
\<close>

theorem startRoutingSimulation_outcomes:
  assumes "0 \<le> r1" and "r1 < 1" and "0 \<le> r2" and "r2 < 1"
  shows "\<exists>st'. startRoutingSimulation r1 r2 st = Inr st'
     \<and> ((length (filter (\<lambda>n. ncolor n \<noteq> inactiveColor) (nodes st)) < 2
          \<and> st' = st\<lparr>finalMessage := Some MsgNeedTwoActiveNodes\<rparr>)
        \<or> (\<exists>source. 2 \<le> length (filter (\<lambda>n. ncolor n \<noteq> inactiveColor) (nodes st))
              \<and> pick r1 (filter (\<lambda>n. ncolor n \<noteq> inactiveColor) (nodes st)) = Some source
              \<and> (\<forall>n\<in>set (nodes st). ncolor n \<noteq> inactiveColor \<and> ncolor n = ncolor source
                     \<longrightarrow> nid n = nid source)
              \<and> st' = st\<lparr>finalMessage := Some (MsgNoDestination (ncolor source))\<rparr>)
        \<or> (\<exists>source destination.
              2 \<le> length (filter (\<lambda>n. ncolor n \<noteq> inactiveColor) (nodes st))
              \<and> pick r1 (filter (\<lambda>n. ncolor n \<noteq> inactiveColor) (nodes st)) = Some source
              \<and> destination \<in> set (nodes st)
              \<and> ncolor destination \<noteq> inactiveColor
              \<and> ncolor destination = ncolor source
              \<and> nid destination \<noteq> nid source
              \<and> st' = st\<lparr>finalMessage := Some MsgEmpty, routeEdges := [],
                         lastRouteStats := None,
                         packet := Some \<lparr>pkt_currentNode = source,
                                         pkt_destination = destination\<rparr>,
                         simulationStarted := False\<rparr>))"
proof -
  let ?active = "filter (\<lambda>n. ncolor n \<noteq> inactiveColor) (nodes st)"
  show ?thesis
  proof (cases "length ?active < 2")
    case True
    then show ?thesis
      by (simp add: startRoutingSimulation_def Let_def)
  next
    case False
    then have ne: "?active \<noteq> []" by auto
    from pick_Some [OF assms(1,2) ne] obtain source where src: "pick r1 ?active = Some source"
      by blast
    let ?cands = "filter (\<lambda>n. ncolor n = ncolor source \<and> nid n \<noteq> nid source) ?active"
    show ?thesis
    proof (cases "?cands = []")
      case True
      then have "\<forall>n\<in>set (nodes st). ncolor n \<noteq> inactiveColor \<and> ncolor n = ncolor source
                     \<longrightarrow> nid n = nid source"
        by (auto simp: filter_empty_conv)
      with False src True show ?thesis
        by (auto simp add: startRoutingSimulation_def Let_def)
    next
      case nonempty: False
      from pick_Some [OF assms(3,4) nonempty] obtain destination where
        dst: "pick r2 ?cands = Some destination"
        by blast
      from pick_in_set [OF dst] have
        "destination \<in> set (nodes st) \<and> ncolor destination \<noteq> inactiveColor
         \<and> ncolor destination = ncolor source \<and> nid destination \<noteq> nid source"
        by auto
      with False src nonempty dst show ?thesis
        by (auto simp add: startRoutingSimulation_def Let_def)
    qed
  qed
qed

theorem startRoutingSimulation_outcomes_witness:
  "(0::real) \<le> 0 \<and> (0::real) < 1
   \<and> (\<exists>st'. startRoutingSimulation 0 0 transitState = Inr st' \<and> routeEdges st' = []
         \<and> packet st' = Some \<lparr>pkt_currentNode = nodeA, pkt_destination = nodeD\<rparr>)"
proof -
  have range: "(0::real) \<le> 0" "(0::real) < 1"
    by simp_all
  have two: "\<not> length (filter (\<lambda>n. ncolor n \<noteq> inactiveColor) (nodes transitState)) < 2"
    and src: "pick 0 (filter (\<lambda>n. ncolor n \<noteq> inactiveColor) (nodes transitState)) = Some nodeA"
    and partner: "nodeD \<in> set (nodes transitState)" "ncolor nodeD \<noteq> inactiveColor"
      "ncolor nodeD = ncolor nodeA" "nid nodeD \<noteq> nid nodeA"
    and only: "\<forall>n\<in>set (nodes transitState). ncolor n \<noteq> inactiveColor \<and> ncolor n = ncolor nodeA
                  \<and> nid n \<noteq> nid nodeA \<longrightarrow> n = nodeD"
    by (simp_all add: transitState_def ex_defs inactiveColor_def pick_def)
  from startRoutingSimulation_outcomes [OF range range, of transitState]
  obtain st' where start: "startRoutingSimulation 0 0 transitState = Inr st'"
    and cases: "(length (filter (\<lambda>n. ncolor n \<noteq> inactiveColor) (nodes transitState)) < 2
          \<and> st' = transitState\<lparr>finalMessage := Some MsgNeedTwoActiveNodes\<rparr>)
        \<or> (\<exists>source. 2 \<le> length (filter (\<lambda>n. ncolor n \<noteq> inactiveColor) (nodes transitState))
              \<and> pick 0 (filter (\<lambda>n. ncolor n \<noteq> inactiveColor) (nodes transitState)) = Some source
              \<and> (\<forall>n\<in>set (nodes transitState). ncolor n \<noteq> inactiveColor \<and> ncolor n = ncolor source
                     \<longrightarrow> nid n = nid source)
              \<and> st' = transitState\<lparr>finalMessage := Some (MsgNoDestination (ncolor source))\<rparr>)
        \<or> (\<exists>source destination.
              2 \<le> length (filter (\<lambda>n. ncolor n \<noteq> inactiveColor) (nodes transitState))
              \<and> pick 0 (filter (\<lambda>n. ncolor n \<noteq> inactiveColor) (nodes transitState)) = Some source
              \<and> destination \<in> set (nodes transitState)
              \<and> ncolor destination \<noteq> inactiveColor
              \<and> ncolor destination = ncolor source
              \<and> nid destination \<noteq> nid source
              \<and> st' = transitState\<lparr>finalMessage := Some MsgEmpty, routeEdges := [],
                         lastRouteStats := None,
                         packet := Some \<lparr>pkt_currentNode = source,
                                         pkt_destination = destination\<rparr>,
                         simulationStarted := False\<rparr>)"
    by blast
  from cases two src partner only have
    "routeEdges st' = []
     \<and> packet st' = Some \<lparr>pkt_currentNode = nodeA, pkt_destination = nodeD\<rparr>"
    by (elim disjE exE conjE) auto
  with start range show ?thesis
    by blast
qed

text \<open>
  C8. With fewer than three nodes, \<open>getNextNode\<close> returns \<open>null\<close> for every current node
  and destination, whatever the strategy and the triangulation; a hop attempted there
  ends the run at once: the message is the lost-packet message, the packet is discarded,
  and no further hop is made. So a run started on such a node set is lost on its first
  step.
\<close>

theorem undersized_graph_lost:
  assumes "length (nodes env) < 3"
  shows "getNextNode nb env r current destination = Inr None
       \<and> simulateRoutingStep nb r env st current destination
           = Inr (st\<lparr>finalMessage := Some MsgPacketLost, packet := None,
                     simulationStarted := False\<rparr>, None)
       \<and> runSteps nb (r # rs) env st current destination
           = Inr (st\<lparr>finalMessage := Some MsgPacketLost, packet := None,
                     simulationStarted := False\<rparr>)
       \<and> (packet env = Some p \<and> \<not> simulationStarted env \<longrightarrow>
            runSimulation nb (r # rs) env
              = Inr (env\<lparr>finalMessage := Some MsgPacketLost, packet := None,
                          simulationStarted := False\<rparr>))"
proof -
  from assms have none: "getNextNode nb env r current destination = Inr None" for current destination
    by (simp add: getNextNode_def)
  then have step: "simulateRoutingStep nb r env st current destination
           = Inr (st\<lparr>finalMessage := Some MsgPacketLost, packet := None,
                     simulationStarted := False\<rparr>, None)" for st current destination
    by (simp add: simulateRoutingStep_def)
  then have run: "runSteps nb (r # rs) env st current destination
           = Inr (st\<lparr>finalMessage := Some MsgPacketLost, packet := None,
                     simulationStarted := False\<rparr>)" for st current destination
    by simp
  from none step run show ?thesis
    by (simp add: runSimulation_def)
qed

theorem undersized_graph_lost_witness:
  "length (nodes twoRedState) < 3
   \<and> startRoutingSimulation 0 0 twoRedState
       = Inr (twoRedState\<lparr>finalMessage := Some MsgEmpty, packet := Some packetAD\<rparr>)
   \<and> runSimulation rectangleNb [0]
        (twoRedState\<lparr>finalMessage := Some MsgEmpty, packet := Some packetAD\<rparr>)
       = Inr (twoRedState\<lparr>finalMessage := Some MsgPacketLost\<rparr>)"
proof -
  let ?st = "twoRedState\<lparr>finalMessage := Some MsgEmpty, packet := Some packetAD\<rparr>"
  have small: "length (nodes ?st) < 3" "length (nodes twoRedState) < 3"
    by (simp_all add: twoRedState_def)
  have started: "startRoutingSimulation 0 0 twoRedState = Inr ?st"
    by (simp add: startRoutingSimulation_def twoRedState_def ex_defs inactiveColor_def
        pick_def packetAD_def)
  have pkt: "packet ?st = Some packetAD \<and> \<not> simulationStarted ?st"
    by (simp add: twoRedState_def rectangleState_def)
  have same: "?st\<lparr>finalMessage := Some MsgPacketLost, packet := None,
                  simulationStarted := False\<rparr>
              = twoRedState\<lparr>finalMessage := Some MsgPacketLost\<rparr>"
    by (simp add: twoRedState_def rectangleState_def)
  from undersized_graph_lost [OF small(1), of rectangleNb 0 nodeA nodeD ?st "[]" packetAD] pkt
  have "runSimulation rectangleNb [0] ?st
          = Inr (?st\<lparr>finalMessage := Some MsgPacketLost, packet := None,
                     simulationStarted := False\<rparr>)"
    by blast
  with same small started show ?thesis
    by simp
qed

lemma simulateRoutingStep_cases:
  assumes "simulateRoutingStep nb r env st current destination = Inr (st1, nxt)"
  shows "(nxt = None
          \<and> st1 = st\<lparr>finalMessage := Some MsgPacketLost, packet := None,
                      simulationStarted := False\<rparr>)
       \<or> (\<exists>next col. nid next = nid destination \<and> nxt = None
            \<and> st1 = st\<lparr>lastRouteStats :=
                          Some (routeStats (routeEdges st @ [hopEdge current next col])),
                        routeEdges := routeEdges st @ [hopEdge current next col],
                        finalMessage := Some MsgArrived, packet := None,
                        simulationStarted := False\<rparr>)
       \<or> (\<exists>next col. nid next \<noteq> nid destination \<and> nxt = Some next
            \<and> st1 = st\<lparr>routeEdges := routeEdges st @ [hopEdge current next col],
                        packet := Some \<lparr>pkt_currentNode = next,
                                        pkt_destination = destination\<rparr>\<rparr>)"
proof (cases "getNextNode nb env r current destination")
  case (Inl e)
  with assms show ?thesis
    by (simp add: simulateRoutingStep_def)
next
  case (Inr res)
  show ?thesis
  proof (cases res)
    case None
    with Inr assms show ?thesis
      by (auto simp: simulateRoutingStep_def)
  next
    case (Some nextNode)
    show ?thesis
    proof (cases "packet env")
      case None
      with Inr Some assms show ?thesis
        by (simp add: simulateRoutingStep_def)
    next
      case (Some p)
      show ?thesis
      proof (cases "nid nextNode = nid destination")
        case True
        with Inr \<open>res = Some nextNode\<close> Some assms
        have "nxt = None
            \<and> st1 = st\<lparr>lastRouteStats := Some (routeStats (routeEdges st
                            @ [hopEdge current nextNode (ncolor (pkt_destination p))])),
                        routeEdges := routeEdges st
                            @ [hopEdge current nextNode (ncolor (pkt_destination p))],
                        finalMessage := Some MsgArrived, packet := None,
                        simulationStarted := False\<rparr>"
          by (auto simp: simulateRoutingStep_def Let_def)
        with True show ?thesis by blast
      next
        case False
        with Inr \<open>res = Some nextNode\<close> Some assms
        have "nxt = Some nextNode
            \<and> st1 = st\<lparr>routeEdges := routeEdges st
                            @ [hopEdge current nextNode (ncolor (pkt_destination p))],
                        packet := Some \<lparr>pkt_currentNode = nextNode,
                                        pkt_destination = destination\<rparr>\<rparr>"
          by (auto simp: simulateRoutingStep_def Let_def)
        with False show ?thesis by blast
      qed
    qed
  qed
qed

lemma runSteps_chain:
  assumes "runSteps nb rs env st current destination = Inr st'"
  shows "\<exists>new. routeEdges st' = routeEdges st @ new \<and> chainFrom (nid current) new"
  using assms
proof (induction rs arbitrary: st current)
  case Nil
  then show ?case by simp
next
  case (Cons r rs)
  from Cons.prems obtain st1 nxt where
    step: "simulateRoutingStep nb r env st current destination = Inr (st1, nxt)"
    by (auto split: sum.splits)
  from simulateRoutingStep_cases [OF step] show ?case
  proof (elim disjE exE conjE)
    assume "nxt = None" and
      "st1 = st\<lparr>finalMessage := Some MsgPacketLost, packet := None, simulationStarted := False\<rparr>"
    with Cons.prems step show ?thesis
      by (intro exI [of _ "[]"]) auto
  next
    fix nextNode col
    assume "nid nextNode = nid destination" and "nxt = None"
      and "st1 = st\<lparr>lastRouteStats :=
                          Some (routeStats (routeEdges st @ [hopEdge current nextNode col])),
                        routeEdges := routeEdges st @ [hopEdge current nextNode col],
                        finalMessage := Some MsgArrived, packet := None,
                        simulationStarted := False\<rparr>"
    with Cons.prems step show ?thesis
      by (intro exI [of _ "[hopEdge current nextNode col]"]) (auto simp: hopEdge_def)
  next
    fix nextNode col
    assume nxt: "nxt = Some nextNode"
      and st1: "st1 = st\<lparr>routeEdges := routeEdges st @ [hopEdge current nextNode col],
                        packet := Some \<lparr>pkt_currentNode = nextNode,
                                        pkt_destination = destination\<rparr>\<rparr>"
    with Cons.prems step have "runSteps nb rs env st1 nextNode destination = Inr st'"
      by simp
    from Cons.IH [OF this] obtain new where
      "routeEdges st' = routeEdges st1 @ new" and "chainFrom (nid nextNode) new"
      by blast
    with st1 show ?thesis
      by (intro exI [of _ "hopEdge current nextNode col # new"]) (simp add: hopEdge_def)
  qed
qed

text \<open>
  C9. A successful start (the one that leaves the empty message) leaves the route empty.
  The edges that a run appends form a chain: the first starts at the node the run is
  called with, and each later one starts at the node where the edge appended before it
  ends; so the route of a run started on an empty route is a chain from the source.
  Moving a node that is the start or the end of an edge of the route empties the route
  (and discards the packet).
\<close>

theorem route_continuity:
  "(startRoutingSimulation ra rb st = Inr started \<and> finalMessage started = Some MsgEmpty
      \<longrightarrow> routeEdges started = [])
   \<and> (runSteps nb rs env st current destination = Inr after
      \<longrightarrow> (\<exists>new. routeEdges after = routeEdges st @ new \<and> chainFrom (nid current) new))
   \<and> (routeEdges st = [] \<and> packet st = Some p \<and> runSimulation nb rs st = Inr final
      \<longrightarrow> chainFrom (nid (pkt_currentNode p)) (routeEdges final))
   \<and> ((\<exists>edge\<in>set (routeEdges st). startId edge = i \<or> endId edge = i)
      \<longrightarrow> routeEdges (updateNodePosition i x y st) = []
        \<and> packet (updateNodePosition i x y st) = None)"
proof (intro conjI impI)
  {
    assume "startRoutingSimulation ra rb st = Inr started \<and> finalMessage started = Some MsgEmpty"
    then show "routeEdges started = []"
      by (auto simp: startRoutingSimulation_def Let_def split: if_splits option.splits)
  }
  {
    assume "runSteps nb rs env st current destination = Inr after"
    from runSteps_chain [OF this]
    show "\<exists>new. routeEdges after = routeEdges st @ new \<and> chainFrom (nid current) new" .
  }
  {
    assume h: "routeEdges st = [] \<and> packet st = Some p \<and> runSimulation nb rs st = Inr final"
    show "chainFrom (nid (pkt_currentNode p)) (routeEdges final)"
    proof (cases "simulationStarted st")
      case True
      with h show ?thesis
        by (auto simp: runSimulation_def)
    next
      case False
      with h have "runSteps nb rs st (st\<lparr>simulationStarted := True\<rparr>)
                     (pkt_currentNode p) (pkt_destination p) = Inr final"
        by (auto simp: runSimulation_def)
      from runSteps_chain [OF this] h show ?thesis
        by auto
    qed
  }
  {
    assume "\<exists>edge\<in>set (routeEdges st). startId edge = i \<or> endId edge = i"
    then show "routeEdges (updateNodePosition i x y st) = []"
      and "packet (updateNodePosition i x y st) = None"
      by (simp_all add: updateNodePosition_def Let_def list_ex_iff)
  }
qed


text \<open>The run on the rectangle, hop by hop.\<close>

lemma rectangle_start:
  "startRoutingSimulation 0 0 (rectangleState SmallestJump) = Inr startedState"
  by (simp add: startRoutingSimulation_def startedState_def ex_defs inactiveColor_def
      pick_def packetAD_def)

lemma rectangle_hop1:
  "getNextNode rectangleNb startedState 0 nodeA nodeD = Inr (Some nodeB)"
  by (simp add: getNextNode_def neighborCandidates_def findIndex_def chooseNeighbor_def
      smallestJump_def shorterJump_def distance_def startedState_def ex_defs)

lemma rectangle_hop2:
  "getNextNode rectangleNb startedState 0 nodeB nodeD = Inr (Some nodeD)"
  by (simp add: getNextNode_def neighborCandidates_def findIndex_def chooseNeighbor_def
      smallestJump_def shorterJump_def distance_def startedState_def ex_defs)

lemma rectangle_run:
  "runSimulation rectangleNb [0, 0, 0] startedState = Inr arrivedState"
proof -
  have pkt: "packet startedState = Some packetAD" "\<not> simulationStarted startedState"
    by (simp_all add: startedState_def rectangleState_def)
  have ends: "pkt_currentNode packetAD = nodeA" "pkt_destination packetAD = nodeD"
    by (simp_all add: packetAD_def)
  have ids: "nid nodeB \<noteq> nid nodeD"
    by (simp add: ex_defs)
  have edges: "hopEdge nodeA nodeB (ncolor nodeD) = edgeAB"
    "hopEdge nodeB nodeD (ncolor nodeD) = edgeBD"
    by (simp_all add: hopEdge_def edgeAB_def edgeBD_def ex_defs)
  have route: "routeEdges startedState = []"
    by (simp add: startedState_def rectangleState_def)
  show ?thesis
    by (simp add: runSimulation_def simulateRoutingStep_def Let_def pkt ends ids edges route
        rectangle_hop1 rectangle_hop2)
      (simp add: arrivedState_def startedState_def rectangleState_def)
qed

theorem route_continuity_witness:
  "startRoutingSimulation 0 0 (rectangleState SmallestJump) = Inr startedState
   \<and> finalMessage startedState = Some MsgEmpty
   \<and> routeEdges startedState = []
   \<and> runSimulation rectangleNb [0, 0, 0] startedState = Inr arrivedState
   \<and> chainFrom (nid nodeA) (routeEdges arrivedState)
   \<and> startId edgeAB = 1
   \<and> routeEdges (updateNodePosition 1 10 10 transitState) = []"
proof -
  have msg: "finalMessage startedState = Some MsgEmpty"
    and pkt: "packet startedState = Some packetAD"
    and src: "pkt_currentNode packetAD = nodeA"
    by (simp_all add: startedState_def packetAD_def)
  have onRoute: "\<exists>edge\<in>set (routeEdges transitState). startId edge = 1 \<or> endId edge = 1"
    and first: "startId edgeAB = 1"
    by (simp_all add: transitState_def edgeAB_def)
  from route_continuity
    [where st = "rectangleState SmallestJump" and ra = 0 and rb = 0 and started = startedState,
      THEN conjunct1]
    rectangle_start msg
  have empty: "routeEdges startedState = []"
    by blast
  from route_continuity
    [where st = startedState and p = packetAD and nb = rectangleNb and rs = "[0, 0, 0]"
       and final = arrivedState, THEN conjunct2, THEN conjunct2, THEN conjunct1]
    empty pkt rectangle_run src
  have chain: "chainFrom (nid nodeA) (routeEdges arrivedState)"
    by simp
  from route_continuity
    [where st = transitState and i = 1 and x = 10 and y = 10,
      THEN conjunct2, THEN conjunct2, THEN conjunct2]
    onRoute
  have "routeEdges (updateNodePosition 1 10 10 transitState) = []"
    by blast
  with rectangle_start msg empty rectangle_run chain first show ?thesis
    by (intro conjI)
qed

section \<open>Claims about the statistics\<close>

text \<open>Rounding: a value within half a unit in the last place of \<open>m * ulp\<close> rounds to it, and
  a value half-way between two neighbours rounds to the even one.\<close>

lemma roundHalfEven_near:
  assumes "of_int m - 1 / 2 < q" and "q < of_int m + 1 / 2"
  shows "roundHalfEven q = m"
proof (cases "of_int m \<le> q")
  case True
  with assms have "\<lfloor>q\<rfloor> = m"
    by linarith
  with assms show ?thesis
    by (simp add: roundHalfEven_def Let_def)
next
  case False
  with assms have fl: "\<lfloor>q\<rfloor> = m - 1"
    by linarith
  with assms have "1 / 2 < q - of_int \<lfloor>q\<rfloor>"
    by simp
  with fl show ?thesis
    by (simp add: roundHalfEven_def Let_def)
qed

lemma roundHalfEven_tie:
  assumes "q = of_int f + 1 / 2"
  shows "roundHalfEven q = (if even f then f else f + 1)"
proof -
  from assms have "\<lfloor>q\<rfloor> = f"
    by linarith
  with assms show ?thesis
    by (simp add: roundHalfEven_def Let_def)
qed

lemma round64_ulp:
  fixes e :: int
  assumes "2 powr of_int e \<le> \<bar>x\<bar>" and "\<bar>x\<bar> < 2 powr of_int (e + 1)"
  shows "round64 x = of_int (roundHalfEven (x / 2 powr of_int (e - 52))) * 2 powr of_int (e - 52)"
proof -
  have pos: "0 < \<bar>x\<bar>"
    using assms(1) by (smt (verit) powr_gt_zero)
  then have "\<lfloor>log 2 \<bar>x\<bar>\<rfloor> = e"
    using assms by (subst floor_log_eq_powr_iff) simp_all
  with pos show ?thesis
    by (simp add: round64_def Let_def)
qed

lemma round64_near:
  fixes e m :: int
  assumes "u = 2 powr of_int (e - 52)"
    and "2 powr of_int e \<le> \<bar>x\<bar>" and "\<bar>x\<bar> < 2 powr of_int (e + 1)"
    and "(of_int m - 1 / 2) * u < x" and "x < (of_int m + 1 / 2) * u"
  shows "round64 x = of_int m * u"
proof -
  have u: "0 < u"
    using assms(1) by simp
  from assms(4,5) u have "of_int m - 1 / 2 < x / u" "x / u < of_int m + 1 / 2"
    by (simp_all add: field_simps)
  then have "roundHalfEven (x / u) = m"
    by (rule roundHalfEven_near)
  with round64_ulp [OF assms(2,3)] assms(1) show ?thesis
    by simp
qed

lemma round64_tie_even:
  fixes e f :: int
  assumes "u = 2 powr of_int (e - 52)"
    and "2 powr of_int e \<le> \<bar>x\<bar>" and "\<bar>x\<bar> < 2 powr of_int (e + 1)"
    and "x = (of_int f + 1 / 2) * u" and "even f"
  shows "round64 x = of_int f * u"
proof -
  have u: "0 < u"
    using assms(1) by simp
  from assms(4) u have "x / u = of_int f + 1 / 2"
    by simp
  from roundHalfEven_tie [OF this] assms(5) have "roundHalfEven (x / u) = f"
    by simp
  with round64_ulp [OF assms(2,3)] assms(1) show ?thesis
    by simp
qed


text \<open>A route that is a connected path is at least as long as the straight line between
  its ends (lengths without rounding).\<close>

lemma pathFrom_snoc:
  "pathFrom p (es @ [e]) \<longleftrightarrow> pathFrom p es \<and> (ex1 e, ey1 e) = pathEnd p es"
  by (induction es arbitrary: p) auto

lemma pathEnd_snoc: "pathEnd p (es @ [e]) = (ex2 e, ey2 e)"
  by (induction es arbitrary: p) simp_all

lemma pathFrom_first:
  "pathFrom p es \<Longrightarrow> es \<noteq> [] \<Longrightarrow> (ex1 (es ! 0), ey1 (es ! 0)) = p"
  by (cases es) simp_all

lemma pathEnd_last:
  "es \<noteq> [] \<Longrightarrow> pathEnd p es = (ex2 (es ! (length es - 1)), ey2 (es ! (length es - 1)))"
proof (induction es arbitrary: p)
  case Nil
  then show ?case by simp
next
  case (Cons e es)
  then show ?case by (cases es) simp_all
qed

lemma plane_triangle:
  fixes a b c d e f :: real
  shows "sqrt ((a - e)\<^sup>2 + (b - f)\<^sup>2)
           \<le> sqrt ((c - a)\<^sup>2 + (d - b)\<^sup>2) + sqrt ((c - e)\<^sup>2 + (d - f)\<^sup>2)"
proof -
  have "sqrt (((a - c) + (c - e))\<^sup>2 + ((b - d) + (d - f))\<^sup>2)
          \<le> sqrt ((a - c)\<^sup>2 + (b - d)\<^sup>2) + sqrt ((c - e)\<^sup>2 + (d - f)\<^sup>2)"
    by (rule real_sqrt_sum_squares_triangle_ineq)
  moreover have "(a - c)\<^sup>2 = (c - a)\<^sup>2" "(b - d)\<^sup>2 = (d - b)\<^sup>2"
    by (simp_all add: power2_commute)
  ultimately show ?thesis
    by simp
qed

lemma path_length_ge_direct:
  assumes "pathFrom p es"
  shows "sqrt ((fst p - fst (pathEnd p es))\<^sup>2 + (snd p - snd (pathEnd p es))\<^sup>2)
           \<le> sum_list (map exactLength es)"
  using assms
proof (induction es arbitrary: p)
  case Nil
  then show ?case by simp
next
  case (Cons e es)
  let ?q = "(ex2 e, ey2 e)"
  from Cons.prems have start: "ex1 e = fst p" "ey1 e = snd p" and rest: "pathFrom ?q es"
    by auto
  from Cons.IH [OF rest] have
    "sqrt ((ex2 e - fst (pathEnd ?q es))\<^sup>2 + (ey2 e - snd (pathEnd ?q es))\<^sup>2)
       \<le> sum_list (map exactLength es)"
    by simp
  moreover have
    "sqrt ((fst p - fst (pathEnd ?q es))\<^sup>2 + (snd p - snd (pathEnd ?q es))\<^sup>2)
       \<le> sqrt ((ex2 e - fst p)\<^sup>2 + (ey2 e - snd p)\<^sup>2)
         + sqrt ((ex2 e - fst (pathEnd ?q es))\<^sup>2 + (ey2 e - snd (pathEnd ?q es))\<^sup>2)"
    by (rule plane_triangle)
  moreover have "exactLength e = sqrt ((ex2 e - fst p)\<^sup>2 + (ey2 e - snd p)\<^sup>2)"
    using start by (simp add: exactLength_def)
  ultimately show ?case
    by simp
qed


lemma exact_path_ge_direct:
  assumes "pathFrom p es" and "es \<noteq> []"
  shows "sqrt ((ex1 (hd es) - ex2 (last es))\<^sup>2 + (ey1 (hd es) - ey2 (last es))\<^sup>2)
           \<le> sum_list (map exactLength es)"
proof -
  from pathFrom_first [OF assms] assms(2) have first: "ex1 (hd es) = fst p" "ey1 (hd es) = snd p"
    by (auto simp: hd_conv_nth)
  from pathEnd_last [OF assms(2), of p] assms(2)
  have last: "ex2 (last es) = fst (pathEnd p es)" "ey2 (last es) = snd (pathEnd p es)"
    by (simp_all add: last_conv_nth)
  from path_length_ge_direct [OF assms(1)] first last show ?thesis
    by simp
qed

lemma runSteps_stats:
  assumes "runSteps nb rs env st current destination = Inr st'"
    and "pathFrom p (routeEdges st)"
    and "pathEnd p (routeEdges st) = (nx current, ny current)"
    and "finalMessage st \<noteq> Some MsgArrived"
  shows "(finalMessage st' = Some MsgArrived \<longrightarrow>
            routeEdges st' \<noteq> [] \<and> pathFrom p (routeEdges st')
          \<and> lastRouteStats st' = Some (routeStats (routeEdges st')))
       \<and> (finalMessage st' \<noteq> Some MsgArrived \<longrightarrow> lastRouteStats st' = lastRouteStats st)"
  using assms
proof (induction rs arbitrary: st current)
  case Nil
  then show ?case by simp
next
  case (Cons r rs)
  from Cons.prems(1) obtain st1 nxt where
    step: "simulateRoutingStep nb r env st current destination = Inr (st1, nxt)"
    by (auto split: sum.splits)
  from simulateRoutingStep_cases [OF step] show ?case
  proof (elim disjE exE conjE)
    assume "nxt = None" and
      "st1 = st\<lparr>finalMessage := Some MsgPacketLost, packet := None, simulationStarted := False\<rparr>"
    with Cons.prems(1) step show ?thesis
      by auto
  next
    fix nextNode col
    assume "nid nextNode = nid destination" and "nxt = None"
      and "st1 = st\<lparr>lastRouteStats :=
                          Some (routeStats (routeEdges st @ [hopEdge current nextNode col])),
                        routeEdges := routeEdges st @ [hopEdge current nextNode col],
                        finalMessage := Some MsgArrived, packet := None,
                        simulationStarted := False\<rparr>"
    with Cons.prems step show ?thesis
      by (auto simp: pathFrom_snoc hopEdge_def)
  next
    fix nextNode col
    assume nxt: "nxt = Some nextNode"
      and st1: "st1 = st\<lparr>routeEdges := routeEdges st @ [hopEdge current nextNode col],
                        packet := Some \<lparr>pkt_currentNode = nextNode,
                                        pkt_destination = destination\<rparr>\<rparr>"
    with Cons.prems(1) step have run: "runSteps nb rs env st1 nextNode destination = Inr st'"
      by simp
    from st1 Cons.prems(2,3) have path: "pathFrom p (routeEdges st1)"
      by (simp add: pathFrom_snoc hopEdge_def)
    from st1 have "end": "pathEnd p (routeEdges st1) = (nx nextNode, ny nextNode)"
      by (simp add: pathEnd_snoc hopEdge_def)
    from st1 Cons.prems(4) have msg: "finalMessage st1 \<noteq> Some MsgArrived"
      by simp
    from Cons.IH [OF run path "end" msg] st1 show ?thesis
      by simp
  qed
qed


text \<open>The statistics on the line: every difference, square and sum of squares is an
  integer that binary64 holds exactly; the three square roots are rounded; and the sum of
  the two edge lengths falls half-way between two binary64 values.\<close>

lemma round64_integers:
  "round64 8 = 8"
  "round64 40 = 40"
  "round64 11 = 11"
  "round64 55 = 55"
  "round64 (- 19) = - 19"
  "round64 (- 95) = - 95"
  "round64 64 = 64"
  "round64 1600 = 1600"
  "round64 121 = 121"
  "round64 3025 = 3025"
  "round64 361 = 361"
  "round64 9025 = 9025"
  "round64 1664 = 1664"
  "round64 3146 = 3146"
  "round64 9386 = 9386"
proof -
  show "round64 8 = 8"
    using round64_near [of "1 / 2 ^ 49" 3 "8" "4503599627370496"]
    by (simp add: powr_minus_divide)
  show "round64 40 = 40"
    using round64_near [of "1 / 2 ^ 47" 5 "40" "5629499534213120"]
    by (simp add: powr_minus_divide)
  show "round64 11 = 11"
    using round64_near [of "1 / 2 ^ 49" 3 "11" "6192449487634432"]
    by (simp add: powr_minus_divide)
  show "round64 55 = 55"
    using round64_near [of "1 / 2 ^ 47" 5 "55" "7740561859543040"]
    by (simp add: powr_minus_divide)
  show "round64 (- 19) = - 19"
    using round64_near [of "1 / 2 ^ 48" 4 "- 19" "- 5348024557502464"]
    by (simp add: powr_minus_divide)
  show "round64 (- 95) = - 95"
    using round64_near [of "1 / 2 ^ 46" 6 "- 95" "- 6685030696878080"]
    by (simp add: powr_minus_divide)
  show "round64 64 = 64"
    using round64_near [of "1 / 2 ^ 46" 6 "64" "4503599627370496"]
    by (simp add: powr_minus_divide)
  show "round64 1600 = 1600"
    using round64_near [of "1 / 2 ^ 42" 10 "1600" "7036874417766400"]
    by (simp add: powr_minus_divide)
  show "round64 121 = 121"
    using round64_near [of "1 / 2 ^ 46" 6 "121" "8514618045497344"]
    by (simp add: powr_minus_divide)
  show "round64 3025 = 3025"
    using round64_near [of "1 / 2 ^ 41" 11 "3025" "6652045348044800"]
    by (simp add: powr_minus_divide)
  show "round64 361 = 361"
    using round64_near [of "1 / 2 ^ 44" 8 "361" "6350779162034176"]
    by (simp add: powr_minus_divide)
  show "round64 9025 = 9025"
    using round64_near [of "1 / 2 ^ 39" 13 "9025" "4961546220339200"]
    by (simp add: powr_minus_divide)
  show "round64 1664 = 1664"
    using round64_near [of "1 / 2 ^ 42" 10 "1664" "7318349394477056"]
    by (simp add: powr_minus_divide)
  show "round64 3146 = 3146"
    using round64_near [of "1 / 2 ^ 41" 11 "3146" "6918127161966592"]
    by (simp add: powr_minus_divide)
  show "round64 9386 = 9386"
    using round64_near [of "1 / 2 ^ 39" 13 "9386" "5160008069152768"]
    by (simp add: powr_minus_divide)
qed

lemma jsSqrt_1664: "jsSqrt 1664 = lengthPQ"
proof -
  have lo: "32 \<le> sqrt 1664"
    by (rule real_le_rsqrt) simp
  have hi: "sqrt 1664 < 64"
    by (rule real_less_lsqrt) simp_all
  have below: "(5740985595342838 - 1 / 2) * (1 / 2 ^ 47) < sqrt 1664"
    by (rule real_less_rsqrt) (simp add: power2_eq_square)
  have above: "sqrt 1664 < (5740985595342838 + 1 / 2) * (1 / 2 ^ 47)"
    by (rule real_less_lsqrt) (simp_all add: power2_eq_square)
  from round64_near [of "1 / 2 ^ 47" 5 "sqrt 1664" 5740985595342838] lo hi below above
  show ?thesis
    by (simp add: jsSqrt_def powr_minus_divide lengthPQ_def)
qed

lemma jsSqrt_3146: "jsSqrt 3146 = lengthQR"
proof -
  have lo: "32 \<le> sqrt 3146"
    by (rule real_le_rsqrt) simp
  have hi: "sqrt 3146 < 64"
    by (rule real_less_lsqrt) simp_all
  have below: "(7893855193596403 - 1 / 2) * (1 / 2 ^ 47) < sqrt 3146"
    by (rule real_less_rsqrt) (simp add: power2_eq_square)
  have above: "sqrt 3146 < (7893855193596403 + 1 / 2) * (1 / 2 ^ 47)"
    by (rule real_less_lsqrt) (simp_all add: power2_eq_square)
  from round64_near [of "1 / 2 ^ 47" 5 "sqrt 3146" 7893855193596403] lo hi below above
  show ?thesis
    by (simp add: jsSqrt_def powr_minus_divide lengthQR_def)
qed

lemma jsSqrt_9386: "jsSqrt 9386 = lineDirect"
proof -
  have lo: "64 \<le> sqrt 9386"
    by (rule real_le_rsqrt) simp
  have hi: "sqrt 9386 < 128"
    by (rule real_less_lsqrt) simp_all
  have below: "(6817420394469621 - 1 / 2) * (1 / 2 ^ 46) < sqrt 9386"
    by (rule real_less_rsqrt) (simp add: power2_eq_square)
  have above: "sqrt 9386 < (6817420394469621 + 1 / 2) * (1 / 2 ^ 46)"
    by (rule real_less_lsqrt) (simp_all add: power2_eq_square)
  from round64_near [of "1 / 2 ^ 46" 6 "sqrt 9386" 6817420394469621] lo hi below above
  show ?thesis
    by (simp add: jsSqrt_def powr_minus_divide lineDirect_def)
qed

lemma jsAdd_first: "jsAdd 0 lengthPQ = lengthPQ"
  using round64_near [of "1 / 2 ^ 47" 5 "5740985595342838 / 2 ^ 47" 5740985595342838]
  by (simp add: jsAdd_def lengthPQ_def powr_minus_divide)

lemma jsAdd_second: "jsAdd lengthPQ lengthQR = lineTotal"
proof -
  have tie: "(5740985595342838 / 2 ^ 47 + 7893855193596403 / 2 ^ 47 :: real)
               = (6817420394469620 + 1 / 2) * (1 / 2 ^ 46)"
    by simp
  have bounds: "(64 :: real) \<le> 5740985595342838 / 2 ^ 47 + 7893855193596403 / 2 ^ 47"
    "(5740985595342838 / 2 ^ 47 + 7893855193596403 / 2 ^ 47 :: real) < 128"
    by simp_all
  from round64_tie_even
    [of "1 / 2 ^ 46" 6 "5740985595342838 / 2 ^ 47 + 7893855193596403 / 2 ^ 47"
        6817420394469620]
    tie bounds
  have "round64 (5740985595342838 / 2 ^ 47 + 7893855193596403 / 2 ^ 47)
          = 6817420394469620 * (1 / 2 ^ 46)"
    by (simp add: powr_minus_divide)
  then show ?thesis
    by (simp add: jsAdd_def lengthPQ_def lengthQR_def lineTotal_def)
qed

lemma line_edgeLength:
  "edgeLength edgePQ = lengthPQ"
  "edgeLength edgeQR = lengthQR"
  by (simp_all add: edgeLength_def edgePQ_def edgeQR_def jsSub_def jsSquare_def jsAdd_def
      round64_integers jsSqrt_1664 jsSqrt_3146)

lemma line_routeStats:
  "stats_totalLength (routeStats [edgePQ, edgeQR]) = lineTotal"
  "stats_directDistance (routeStats [edgePQ, edgeQR]) = lineDirect"
proof -
  show "stats_totalLength (routeStats [edgePQ, edgeQR]) = lineTotal"
    by (simp add: routeStats_def line_edgeLength jsAdd_first jsAdd_second)
  have "stats_directDistance (routeStats [edgePQ, edgeQR]) = jsSqrt 9386"
    by (simp add: routeStats_def edgePQ_def edgeQR_def jsSub_def jsSquare_def jsAdd_def
        round64_integers)
  then show "stats_directDistance (routeStats [edgePQ, edgeQR]) = lineDirect"
    by (simp only: jsSqrt_9386)
qed

lemma line_start: "startRoutingSimulation 0 0 lineState = Inr lineStarted"
  by (simp add: startRoutingSimulation_def lineStarted_def lineState_def nodeP_def nodeQ_def
      nodeR_def inactiveColor_def pick_def)

lemma line_hops:
  "getNextNode lineNb lineStarted 0 nodeP nodeR = Inr (Some nodeQ)"
  "getNextNode lineNb lineStarted 0 nodeQ nodeR = Inr (Some nodeR)"
  by (simp_all add: getNextNode_def neighborCandidates_def findIndex_def chooseNeighbor_def
      closestToDestination_def closerToDestination_def distance_def lineStarted_def
      lineState_def lineNb_def nodeP_def nodeQ_def nodeR_def)

lemma line_run: "runSimulation lineNb [0, 0] lineStarted = Inr lineArrived"
proof -
  have pkt: "packet lineStarted = Some \<lparr>pkt_currentNode = nodeP, pkt_destination = nodeR\<rparr>"
    "\<not> simulationStarted lineStarted" "routeEdges lineStarted = []"
    by (simp_all add: lineStarted_def lineState_def)
  have ids: "nid nodeQ \<noteq> nid nodeR"
    by (simp add: nodeQ_def nodeR_def)
  have edges: "hopEdge nodeP nodeQ (ncolor nodeR) = edgePQ"
    "hopEdge nodeQ nodeR (ncolor nodeR) = edgeQR"
    by (simp_all add: hopEdge_def edgePQ_def edgeQR_def nodeP_def nodeQ_def nodeR_def)
  show ?thesis
    by (simp add: runSimulation_def simulateRoutingStep_def Let_def pkt ids edges line_hops)
      (simp add: lineArrived_def lineStarted_def lineState_def)
qed

text \<open>
  C3. The claim fails on the inequality. On the line, the run from \<open>nodeP\<close> to \<open>nodeR\<close>
  through \<open>nodeQ\<close> arrives, and the statistics it computes have a total length one unit in
  the last place below the direct distance: the two edge lengths add up to a value half-way
  between two binary64 values and the sum is rounded down, while the direct distance is
  the rounded square root. The ratio shown to the user is below 1.
\<close>

theorem arrived_statistics_counterexample:
  "startRoutingSimulation 0 0 lineState = Inr lineStarted
   \<and> runSimulation lineNb [0, 0] lineStarted = Inr lineArrived
   \<and> finalMessage lineArrived = Some MsgArrived
   \<and> routeEdges lineArrived = [edgePQ, edgeQR]
   \<and> lastRouteStats lineArrived = Some (routeStats [edgePQ, edgeQR])
   \<and> stats_totalLength (routeStats [edgePQ, edgeQR]) = 6817420394469620 / 2 ^ 46
   \<and> stats_directDistance (routeStats [edgePQ, edgeQR]) = 6817420394469621 / 2 ^ 46
   \<and> stats_totalLength (routeStats [edgePQ, edgeQR])
       < stats_directDistance (routeStats [edgePQ, edgeQR])
   \<and> stats_directDistance (routeStats [edgePQ, edgeQR]) \<noteq> 0
   \<and> stats_totalLength (routeStats [edgePQ, edgeQR])
       / stats_directDistance (routeStats [edgePQ, edgeQR]) < 1"
  by (simp add: line_start line_run line_routeStats lineArrived_def lineTotal_def
      lineDirect_def)

text \<open>
  C3, as the code has it. A run is started on an empty route with no statistics, as a
  successful start leaves them. If it ends with the arrival message, statistics are
  present and: \<open>numEdges\<close> is the number of edges of the route and is at least 1;
  \<open>totalLength\<close> is the sum, from left to right in binary64 arithmetic, of the edge lengths
  computed in binary64 arithmetic; \<open>directDistance\<close> is the distance, computed in binary64
  arithmetic, between the start of the first edge and the end of the last one; and the
  route is a connected path, so that without rounding the sum of the Euclidean lengths of
  its edges is at least the Euclidean distance between those two points. If the run ends
  otherwise (lost, or still in transit), there are no statistics.
\<close>

theorem arrived_statistics_rounded:
  assumes "runSimulation nb rs st = Inr st'"
    and "routeEdges st = []"
    and "lastRouteStats st = None"
    and "finalMessage st = Some MsgEmpty"
  shows "(finalMessage st' = Some MsgArrived \<longrightarrow>
           (\<exists>stats. lastRouteStats st' = Some stats
              \<and> stats_numEdges stats = length (routeEdges st')
              \<and> 1 \<le> stats_numEdges stats
              \<and> stats_totalLength stats
                  = foldl (\<lambda>sum edge. jsAdd sum (edgeLength edge)) 0 (routeEdges st')
              \<and> stats_directDistance stats
                  = jsSqrt (jsAdd
                      (jsSquare (jsSub (ex1 (hd (routeEdges st'))) (ex2 (last (routeEdges st')))))
                      (jsSquare (jsSub (ey1 (hd (routeEdges st'))) (ey2 (last (routeEdges st'))))))
              \<and> sqrt ((ex1 (hd (routeEdges st')) - ex2 (last (routeEdges st')))\<^sup>2
                      + (ey1 (hd (routeEdges st')) - ey2 (last (routeEdges st')))\<^sup>2)
                  \<le> sum_list (map exactLength (routeEdges st'))))
       \<and> (finalMessage st' \<noteq> Some MsgArrived \<longrightarrow> lastRouteStats st' = None)"
proof (cases "\<exists>p. packet st = Some p \<and> \<not> simulationStarted st")
  case False
  with assms(1) have "st' = st"
    by (auto simp: runSimulation_def split: option.splits if_splits)
  with assms show ?thesis
    by simp
next
  case True
  then obtain pk where pk: "packet st = Some pk" "\<not> simulationStarted st"
    by blast
  let ?p = "(nx (pkt_currentNode pk), ny (pkt_currentNode pk))"
  let ?st0 = "st\<lparr>simulationStarted := True\<rparr>"
  from pk assms(1) have run:
    "runSteps nb rs st ?st0 (pkt_currentNode pk) (pkt_destination pk) = Inr st'"
    by (simp add: runSimulation_def)
  have path: "pathFrom ?p (routeEdges ?st0)"
    and "end": "pathEnd ?p (routeEdges ?st0) = ?p"
    and msg: "finalMessage ?st0 \<noteq> Some MsgArrived"
    using assms(2,4) by simp_all
  note inv = runSteps_stats [OF run path "end" msg]
  show ?thesis
  proof (intro conjI impI)
    assume "finalMessage st' = Some MsgArrived"
    with inv have ne: "routeEdges st' \<noteq> []" and pf: "pathFrom ?p (routeEdges st')"
      and stats: "lastRouteStats st' = Some (routeStats (routeEdges st'))"
      by simp_all
    from ne have count: "1 \<le> length (routeEdges st')"
      by (cases "routeEdges st'") simp_all
    from ne have ends: "routeEdges st' ! 0 = hd (routeEdges st')"
      "routeEdges st' ! (length (routeEdges st') - 1) = last (routeEdges st')"
      by (simp_all add: hd_conv_nth last_conv_nth)
    from stats count ends exact_path_ge_direct [OF pf ne]
    show "\<exists>stats. lastRouteStats st' = Some stats
              \<and> stats_numEdges stats = length (routeEdges st')
              \<and> 1 \<le> stats_numEdges stats
              \<and> stats_totalLength stats
                  = foldl (\<lambda>sum edge. jsAdd sum (edgeLength edge)) 0 (routeEdges st')
              \<and> stats_directDistance stats
                  = jsSqrt (jsAdd
                      (jsSquare (jsSub (ex1 (hd (routeEdges st'))) (ex2 (last (routeEdges st')))))
                      (jsSquare (jsSub (ey1 (hd (routeEdges st'))) (ey2 (last (routeEdges st'))))))
              \<and> sqrt ((ex1 (hd (routeEdges st')) - ex2 (last (routeEdges st')))\<^sup>2
                      + (ey1 (hd (routeEdges st')) - ey2 (last (routeEdges st')))\<^sup>2)
                  \<le> sum_list (map exactLength (routeEdges st'))"
      by (intro exI [of _ "routeStats (routeEdges st')"]) (simp add: routeStats_def)
  next
    assume "finalMessage st' \<noteq> Some MsgArrived"
    with inv assms(3) show "lastRouteStats st' = None"
      by simp
  qed
qed

lemma twoRed_run:
  "runSimulation rectangleNb [0]
     (twoRedState\<lparr>finalMessage := Some MsgEmpty, packet := Some packetAD\<rparr>)
   = Inr (twoRedState\<lparr>finalMessage := Some MsgPacketLost\<rparr>)"
  by (simp add: runSimulation_def simulateRoutingStep_def getNextNode_def twoRedState_def
      rectangleState_def)

theorem arrived_statistics_rounded_witness:
  "runSimulation lineNb [0, 0] lineStarted = Inr lineArrived
   \<and> finalMessage lineArrived = Some MsgArrived
   \<and> lastRouteStats lineArrived = Some (routeStats [edgePQ, edgeQR])
   \<and> stats_numEdges (routeStats [edgePQ, edgeQR]) = 2
   \<and> sqrt ((ex1 edgePQ - ex2 edgeQR)\<^sup>2 + (ey1 edgePQ - ey2 edgeQR)\<^sup>2)
       \<le> exactLength edgePQ + exactLength edgeQR
   \<and> finalMessage (twoRedState\<lparr>finalMessage := Some MsgPacketLost\<rparr>) \<noteq> Some MsgArrived
   \<and> lastRouteStats (twoRedState\<lparr>finalMessage := Some MsgPacketLost\<rparr>) = None"
proof -
  have fresh: "routeEdges lineStarted = []" "lastRouteStats lineStarted = None"
    "finalMessage lineStarted = Some MsgEmpty"
    by (simp_all add: lineStarted_def lineState_def)
  have arrived: "finalMessage lineArrived = Some MsgArrived"
    and stats: "lastRouteStats lineArrived = Some (routeStats [edgePQ, edgeQR])"
    and route: "routeEdges lineArrived = [edgePQ, edgeQR]"
    by (simp_all add: lineArrived_def)
  let ?two = "twoRedState\<lparr>finalMessage := Some MsgEmpty, packet := Some packetAD\<rparr>"
  have fresh2: "routeEdges ?two = []" "lastRouteStats ?two = None"
    "finalMessage ?two = Some MsgEmpty"
    by (simp_all add: twoRedState_def rectangleState_def)
  have lost: "finalMessage (twoRedState\<lparr>finalMessage := Some MsgPacketLost\<rparr>) \<noteq> Some MsgArrived"
    by simp
  from arrived_statistics_rounded [OF line_run fresh, THEN conjunct1] arrived stats route
  have "stats_numEdges (routeStats [edgePQ, edgeQR]) = 2
      \<and> sqrt ((ex1 edgePQ - ex2 edgeQR)\<^sup>2 + (ey1 edgePQ - ey2 edgeQR)\<^sup>2)
          \<le> exactLength edgePQ + exactLength edgeQR"
    by auto
  moreover from arrived_statistics_rounded [OF twoRed_run fresh2, THEN conjunct2] lost
  have "lastRouteStats (twoRedState\<lparr>finalMessage := Some MsgPacketLost\<rparr>) = None"
    by blast
  ultimately show ?thesis
    using line_run arrived stats lost by (intro conjI) simp_all
qed

section \<open>Claims about the \<open>firstLeft\<close> strategy\<close>

text \<open>Each normalisation loop moves its argument by a multiple of \<open>2\<pi>\<close>; together they
  bring it into \<open>(-\<pi>, \<pi>]\<close>.\<close>

lemma normalizeUp_gt: "- pi < normalizeUp r"
proof (induction r rule: normalizeUp.induct)
  case (1 r)
  then show ?case
    by (subst normalizeUp.simps) auto
qed

lemma normalizeUp_shift: "\<exists>k::int. normalizeUp r = r + 2 * pi * of_int k"
proof (induction r rule: normalizeUp.induct)
  case (1 r)
  show ?case
  proof (cases "r \<le> - pi")
    case True
    from 1 [OF True] obtain k :: int where "normalizeUp (r + 2 * pi) = r + 2 * pi + 2 * pi * of_int k"
      by blast
    then have "normalizeUp r = r + 2 * pi * of_int (k + 1)"
      using True by (subst normalizeUp.simps) (simp add: algebra_simps)
    then show ?thesis by blast
  next
    case False
    then have "normalizeUp r = r + 2 * pi * of_int 0"
      by (subst normalizeUp.simps) simp
    then show ?thesis by blast
  qed
qed

lemma normalizeDown_range: "- pi < r \<Longrightarrow> - pi < normalizeDown r \<and> normalizeDown r \<le> pi"
proof (induction r rule: normalizeDown.induct)
  case (1 r)
  show ?case
  proof (cases "pi < r")
    case True
    then have "- pi < r - 2 * pi" by simp
    from 1(1) [OF True this] True show ?thesis
      by (subst (1 2) normalizeDown.simps) simp
  next
    case False
    with 1(2) show ?thesis
      by (subst (1 2) normalizeDown.simps) simp
  qed
qed

lemma normalizeDown_shift: "\<exists>k::int. normalizeDown r = r + 2 * pi * of_int k"
proof (induction r rule: normalizeDown.induct)
  case (1 r)
  show ?case
  proof (cases "pi < r")
    case True
    from 1 [OF True] obtain k :: int where "normalizeDown (r - 2 * pi) = r - 2 * pi + 2 * pi * of_int k"
      by blast
    then have "normalizeDown r = r + 2 * pi * of_int (k - 1)"
      using True by (subst normalizeDown.simps) (simp add: algebra_simps)
    then show ?thesis by blast
  next
    case False
    then have "normalizeDown r = r + 2 * pi * of_int 0"
      by (subst normalizeDown.simps) simp
    then show ?thesis by blast
  qed
qed

lemma relativeAngle_range:
  "- pi < relativeAngle a b \<and> relativeAngle a b \<le> pi"
  unfolding relativeAngle_def by (rule normalizeDown_range) (rule normalizeUp_gt)

lemma relativeAngle_shift: "\<exists>k::int. relativeAngle a b = a - b + 2 * pi * of_int k"
proof -
  obtain k :: int where up: "normalizeUp (a - b) = a - b + 2 * pi * of_int k"
    using normalizeUp_shift by blast
  obtain j :: int where "normalizeDown (normalizeUp (a - b))
      = normalizeUp (a - b) + 2 * pi * of_int j"
    using normalizeDown_shift by blast
  with up have "relativeAngle a b = a - b + 2 * pi * of_int (k + j)"
    by (simp add: relativeAngle_def algebra_simps)
  then show ?thesis by blast
qed

lemma relativeAngle_id: "- pi < a - b \<Longrightarrow> a - b \<le> pi \<Longrightarrow> relativeAngle a b = a - b"
  unfolding relativeAngle_def
  by (subst normalizeUp.simps, subst normalizeDown.simps) simp


lemma foldl_Some_min:
  fixes f :: "'a \<Rightarrow> real"
  shows "foldl (\<lambda>best c. case best of None \<Rightarrow> Some c
            | Some b \<Rightarrow> if f c < f b then Some c else Some b) (Some x) xs
         = Some (foldl (\<lambda>best c. if f c < f best then c else best) x xs)"
  by (induction xs arbitrary: x) simp_all

lemma reduce1_first_min:
  fixes f :: "'a \<Rightarrow> real"
  assumes "xs \<noteq> []"
  shows "\<exists>ys m zs. xs = ys @ m # zs
           \<and> reduce1 (\<lambda>best c. if f c < f best then c else best) xs = Inr m
           \<and> (\<forall>y\<in>set ys. f m < f y) \<and> (\<forall>z\<in>set zs. f m \<le> f z)"
proof -
  from assms obtain x rest where xs: "xs = x # rest"
    by (cases xs) auto
  from foldl_first_min [OF assms, of f] obtain ys m zs where
    split: "xs = ys @ m # zs" and
    res: "foldl (\<lambda>best c. case best of None \<Rightarrow> Some c
            | Some b \<Rightarrow> if f c < f b then Some c else Some b) None xs = Some m" and
    order: "\<forall>y\<in>set ys. f m < f y" "\<forall>z\<in>set zs. f m \<le> f z"
    by blast
  from res xs have "reduce1 (\<lambda>best c. if f c < f best then c else best) xs = Inr m"
    by (simp add: foldl_Some_min)
  with split order show ?thesis
    by blast
qed

lemma reduce1_min:
  fixes f :: "'a \<Rightarrow> real"
  assumes "xs \<noteq> []"
  shows "\<exists>m\<in>set xs. reduce1 (\<lambda>best c. if f c < f best then c else best) xs = Inr m
           \<and> (\<forall>z\<in>set xs. f m \<le> f z)"
proof -
  from reduce1_first_min [OF assms, of f] obtain ys m zs where
    split: "xs = ys @ m # zs" and
    res: "reduce1 (\<lambda>best c. if f c < f best then c else best) xs = Inr m" and
    order: "\<forall>y\<in>set ys. f m < f y" "\<forall>z\<in>set zs. f m \<le> f z"
    by blast
  have "m \<in> set xs"
    using split by simp
  moreover have "\<forall>z\<in>set xs. f m \<le> f z"
    using order by (subst split) fastforce
  ultimately show ?thesis
    using res by blast
qed

lemma reduce1_max:
  fixes f :: "'a \<Rightarrow> real"
  assumes "xs \<noteq> []"
  shows "\<exists>m\<in>set xs. reduce1 (\<lambda>best c. if f best < f c then c else best) xs = Inr m
           \<and> (\<forall>z\<in>set xs. f z \<le> f m)"
  using reduce1_min [OF assms, of "\<lambda>c. - f c"] by simp

lemma firstLeft_result:
  assumes "candidates \<noteq> []"
  shows "\<exists>n\<in>set candidates. firstLeft current destination candidates = Inr (Some n)
     \<and> (if \<exists>c\<in>set candidates. 0 < relativeBearing current destination c
        then 0 < relativeBearing current destination n
           \<and> (\<forall>c\<in>set candidates. 0 < relativeBearing current destination c
                 \<longrightarrow> relativeBearing current destination n
                      \<le> relativeBearing current destination c)
        else (\<forall>c\<in>set candidates. relativeBearing current destination c
                 \<le> relativeBearing current destination n))"
proof -
  let ?rel = "relativeBearing current destination"
  let ?all = "map (withAngle current destination) candidates"
  let ?left = "filter (\<lambda>c. 0 < snd c) ?all"
  have left_set: "set ?left = (\<lambda>c. (c, ?rel c)) ` {c \<in> set candidates. 0 < ?rel c}"
    by (auto simp: withAngle_def)
  have all_set: "set ?all = (\<lambda>c. (c, ?rel c)) ` set candidates"
    by (auto simp: withAngle_def)
  show ?thesis
  proof (cases "\<exists>c\<in>set candidates. 0 < ?rel c")
    case True
    then have ne: "?left \<noteq> []"
      by (auto simp: filter_empty_conv withAngle_def)
    from reduce1_min [OF ne, of snd] obtain m where
      m: "m \<in> set ?left" and
      res: "reduce1 (\<lambda>best c. if snd c < snd best then c else best) ?left = Inr m" and
      least: "\<forall>z\<in>set ?left. snd m \<le> snd z"
      by blast
    from m left_set obtain n where n: "n \<in> set candidates" "0 < ?rel n" "m = (n, ?rel n)"
      by auto
    have "?rel n \<le> ?rel c" if "c \<in> set candidates" "0 < ?rel c" for c
    proof -
      from that have "(c, ?rel c) \<in> set ?left"
        unfolding left_set by blast
      with least have "snd m \<le> snd (c, ?rel c)"
        by blast
      with n(3) show ?thesis
        by simp
    qed
    then have "\<forall>c\<in>set candidates. 0 < ?rel c \<longrightarrow> ?rel n \<le> ?rel c"
      by blast
    moreover from res ne n have "firstLeft current destination candidates = Inr (Some n)"
      by (simp add: firstLeft_def Let_def)
    ultimately show ?thesis
      using True n by auto
  next
    case False
    then have empty: "?left = []"
      by (auto simp: filter_empty_conv withAngle_def)
    from assms have ne: "?all \<noteq> []"
      by simp
    from reduce1_max [OF ne, of snd] obtain m where
      m: "m \<in> set ?all" and
      res: "reduce1 (\<lambda>best c. if snd best < snd c then c else best) ?all = Inr m" and
      greatest: "\<forall>z\<in>set ?all. snd z \<le> snd m"
      by blast
    from m all_set obtain n where n: "n \<in> set candidates" "m = (n, ?rel n)"
      by auto
    have "?rel c \<le> ?rel n" if "c \<in> set candidates" for c
    proof -
      from that have "(c, ?rel c) \<in> set ?all"
        unfolding all_set by blast
      with greatest have "snd (c, ?rel c) \<le> snd m"
        by blast
      with n(2) show ?thesis
        by simp
    qed
    then have "\<forall>c\<in>set candidates. ?rel c \<le> ?rel n"
      by blast
    moreover from res empty n have "firstLeft current destination candidates = Inr (Some n)"
      by (simp add: firstLeft_def Let_def)
    ultimately show ?thesis
      using False n by auto
  qed
qed


text \<open>
  C5. With the \<open>firstLeft\<close> strategy, the relative angle computed for a candidate is its
  bearing minus the bearing of the destination, brought into \<open>(-\<pi>, \<pi>]\<close> by a multiple of
  \<open>2\<pi>\<close>. The node that \<open>getNextNode\<close> returns is a neighbour; if some neighbour has a
  strictly positive relative angle, the returned one has the smallest positive relative
  angle; otherwise it has the largest relative angle of all neighbours. A node is returned
  whenever the neighbour sequence is not empty.
\<close>

theorem firstLeft_smallest_positive:
  assumes "strategy env = FirstLeft"
  shows "(- pi < relativeBearing current destination c
          \<and> relativeBearing current destination c \<le> pi
          \<and> (\<exists>k::int. relativeBearing current destination c
                 = atan2 (ny c - ny current) (nx c - nx current)
                   - atan2 (ny destination - ny current) (nx destination - nx current)
                   + 2 * pi * of_int k))
       \<and> (getNextNode nb env r current destination = Inr (Some n) \<longrightarrow>
            Some n \<in> set (neighborCandidates nb (nodes env) current)
          \<and> ((\<exists>c. Some c \<in> set (neighborCandidates nb (nodes env) current)
                  \<and> 0 < relativeBearing current destination c)
               \<longrightarrow> 0 < relativeBearing current destination n
                 \<and> (\<forall>c. Some c \<in> set (neighborCandidates nb (nodes env) current)
                        \<and> 0 < relativeBearing current destination c
                        \<longrightarrow> relativeBearing current destination n
                             \<le> relativeBearing current destination c))
          \<and> (\<not> (\<exists>c. Some c \<in> set (neighborCandidates nb (nodes env) current)
                  \<and> 0 < relativeBearing current destination c)
               \<longrightarrow> (\<forall>c. Some c \<in> set (neighborCandidates nb (nodes env) current)
                        \<longrightarrow> relativeBearing current destination c
                             \<le> relativeBearing current destination n)))
       \<and> (3 \<le> length (nodes env)
          \<and> neighborCandidates nb (nodes env) current \<noteq> []
          \<and> None \<notin> set (neighborCandidates nb (nodes env) current)
          \<longrightarrow> (\<exists>m. getNextNode nb env r current destination = Inr (Some m)))"
proof -
  let ?cs = "neighborCandidates nb (nodes env) current"
  let ?rel = "relativeBearing current destination"
  have range: "- pi < ?rel c \<and> ?rel c \<le> pi
      \<and> (\<exists>k::int. ?rel c = atan2 (ny c - ny current) (nx c - nx current)
                   - atan2 (ny destination - ny current) (nx destination - nx current)
                   + 2 * pi * of_int k)"
    using relativeAngle_range relativeAngle_shift
    by (simp add: relativeBearing_def Let_def)
  have chosen: "Some n \<in> set ?cs
          \<and> ((\<exists>c. Some c \<in> set ?cs \<and> 0 < ?rel c)
               \<longrightarrow> 0 < ?rel n \<and> (\<forall>c. Some c \<in> set ?cs \<and> 0 < ?rel c \<longrightarrow> ?rel n \<le> ?rel c))
          \<and> (\<not> (\<exists>c. Some c \<in> set ?cs \<and> 0 < ?rel c)
               \<longrightarrow> (\<forall>c. Some c \<in> set ?cs \<longrightarrow> ?rel c \<le> ?rel n))"
    if res: "getNextNode nb env r current destination = Inr (Some n)"
  proof -
    from getNextNode_Some_defined [OF res] assms
    have def: "3 \<le> length (nodes env)" "?cs \<noteq> []" "None \<notin> set ?cs"
      by simp_all
    from res getNextNode_defined [OF def, of r destination] assms
    have fl: "firstLeft current destination (map the ?cs) = Inr (Some n)"
      by (simp add: chooseNeighbor_def)
    have mem: "\<And>c. Some c \<in> set ?cs \<longleftrightarrow> c \<in> set (map the ?cs)"
      using def(3) by (metis map_Some_the image_iff list.set_map option.sel)
    from def(2) have "map the ?cs \<noteq> []"
      by simp
    from firstLeft_result [OF this, of current destination] fl
    have "n \<in> set (map the ?cs)
     \<and> (if \<exists>c\<in>set (map the ?cs). 0 < ?rel c
        then 0 < ?rel n \<and> (\<forall>c\<in>set (map the ?cs). 0 < ?rel c \<longrightarrow> ?rel n \<le> ?rel c)
        else (\<forall>c\<in>set (map the ?cs). ?rel c \<le> ?rel n))"
      by auto
    then show ?thesis
      unfolding mem by (auto split: if_splits)
  qed
  have total: "\<exists>m. getNextNode nb env r current destination = Inr (Some m)"
    if h: "3 \<le> length (nodes env) \<and> ?cs \<noteq> [] \<and> None \<notin> set ?cs"
  proof -
    from h have "map the ?cs \<noteq> []"
      by simp
    from firstLeft_result [OF this, of current destination]
    obtain m where "firstLeft current destination (map the ?cs) = Inr (Some m)"
      by blast
    with h assms show ?thesis
      by (simp add: getNextNode_defined chooseNeighbor_def)
  qed
  from range chosen total show ?thesis
    by blast
qed

text \<open>The bearings on the rectangle, seen from \<open>nodeA\<close>.\<close>

lemma arctan_four_thirds: "0 < arctan (4 / 3)" "arctan (4 / 3) < pi / 2"
proof -
  show "0 < arctan (4 / 3)"
    by simp
  show "arctan (4 / 3) < pi / 2"
    by (rule arctan_ubound)
qed

lemma rectangle_atan2:
  "atan2 (ny nodeB - ny nodeA) (nx nodeB - nx nodeA) = 0"
  "atan2 (ny nodeD - ny nodeA) (nx nodeD - nx nodeA) = arctan (4 / 3)"
  "atan2 (ny nodeC - ny nodeA) (nx nodeC - nx nodeA) = pi / 2"
  by (simp_all add: atan2_def ex_defs)

lemma rectangle_bearings_B:
  "relativeBearing nodeA nodeB nodeB = 0"
  "relativeBearing nodeA nodeB nodeD = arctan (4 / 3)"
  "relativeBearing nodeA nodeB nodeC = pi / 2"
proof -
  have "relativeBearing nodeA nodeB nodeB = relativeAngle 0 0"
    by (simp only: relativeBearing_def Let_def rectangle_atan2)
  also have "\<dots> = 0 - 0"
    by (rule relativeAngle_id) (use pi_gt_zero in linarith)+
  finally show "relativeBearing nodeA nodeB nodeB = 0"
    by simp
  have "relativeBearing nodeA nodeB nodeD = relativeAngle (arctan (4 / 3)) 0"
    by (simp only: relativeBearing_def Let_def rectangle_atan2)
  also have "\<dots> = arctan (4 / 3) - 0"
    by (rule relativeAngle_id) (use arctan_four_thirds pi_gt_zero in linarith)+
  finally show "relativeBearing nodeA nodeB nodeD = arctan (4 / 3)"
    by simp
  have "relativeBearing nodeA nodeB nodeC = relativeAngle (pi / 2) 0"
    by (simp only: relativeBearing_def Let_def rectangle_atan2)
  also have "\<dots> = pi / 2 - 0"
    by (rule relativeAngle_id) (use pi_gt_zero in linarith)+
  finally show "relativeBearing nodeA nodeB nodeC = pi / 2"
    by simp
qed

lemma rectangle_bearings_C:
  "relativeBearing nodeA nodeC nodeB = - (pi / 2)"
  "relativeBearing nodeA nodeC nodeD = arctan (4 / 3) - pi / 2"
  "relativeBearing nodeA nodeC nodeC = 0"
proof -
  have "relativeBearing nodeA nodeC nodeB = relativeAngle 0 (pi / 2)"
    by (simp only: relativeBearing_def Let_def rectangle_atan2)
  also have "\<dots> = 0 - pi / 2"
    by (rule relativeAngle_id) (use pi_gt_zero in linarith)+
  finally show "relativeBearing nodeA nodeC nodeB = - (pi / 2)"
    by simp
  have "relativeBearing nodeA nodeC nodeD = relativeAngle (arctan (4 / 3)) (pi / 2)"
    by (simp only: relativeBearing_def Let_def rectangle_atan2)
  also have "\<dots> = arctan (4 / 3) - pi / 2"
    by (rule relativeAngle_id) (use arctan_four_thirds pi_gt_zero in linarith)+
  finally show "relativeBearing nodeA nodeC nodeD = arctan (4 / 3) - pi / 2" .
  have "relativeBearing nodeA nodeC nodeC = relativeAngle (pi / 2) (pi / 2)"
    by (simp only: relativeBearing_def Let_def rectangle_atan2)
  also have "\<dots> = pi / 2 - pi / 2"
    by (rule relativeAngle_id) (use pi_gt_zero in linarith)+
  finally show "relativeBearing nodeA nodeC nodeC = 0"
    by simp
qed

lemma rectangle_firstLeft:
  "getNextNode rectangleNb (rectangleState FirstLeft) 0 nodeA nodeB = Inr (Some nodeD)"
  "getNextNode rectangleNb (rectangleState FirstLeft) 0 nodeA nodeC = Inr (Some nodeC)"
proof -
  have cands: "neighborCandidates rectangleNb (nodes (rectangleState FirstLeft)) nodeA
                 = [Some nodeB, Some nodeD, Some nodeC]"
    by (simp add: neighborCandidates_def findIndex_def ex_defs)
  have size: "\<not> length (nodes (rectangleState FirstLeft)) < 3"
    and strat: "strategy (rectangleState FirstLeft) = FirstLeft"
    by (simp_all add: rectangleState_def)
  have neg: "\<not> 0 < arctan (4 / 3) - pi / 2"
    using arctan_four_thirds by linarith
  show "getNextNode rectangleNb (rectangleState FirstLeft) 0 nodeA nodeB = Inr (Some nodeD)"
    using arctan_four_thirds
    by (simp add: getNextNode_def cands size strat chooseNeighbor_def firstLeft_def
        withAngle_def rectangle_bearings_B)
  show "getNextNode rectangleNb (rectangleState FirstLeft) 0 nodeA nodeC = Inr (Some nodeC)"
    using arctan_four_thirds neg
    by (simp add: getNextNode_def cands size strat chooseNeighbor_def firstLeft_def
        withAngle_def rectangle_bearings_C)
qed

theorem firstLeft_smallest_positive_witness:
  "getNextNode rectangleNb (rectangleState FirstLeft) 0 nodeA nodeB = Inr (Some nodeD)
   \<and> 0 < relativeBearing nodeA nodeB nodeD
   \<and> relativeBearing nodeA nodeB nodeD \<le> relativeBearing nodeA nodeB nodeC
   \<and> relativeBearing nodeA nodeB nodeD \<le> pi
   \<and> getNextNode rectangleNb (rectangleState FirstLeft) 0 nodeA nodeC = Inr (Some nodeC)
   \<and> relativeBearing nodeA nodeC nodeB \<le> relativeBearing nodeA nodeC nodeC"
proof -
  let ?env = "rectangleState FirstLeft"
  have strat: "strategy ?env = FirstLeft"
    by (simp add: rectangleState_def)
  have cands: "neighborCandidates rectangleNb (nodes ?env) nodeA
                 = [Some nodeB, Some nodeD, Some nodeC]"
    by (simp add: neighborCandidates_def findIndex_def ex_defs)
  have posC: "0 < relativeBearing nodeA nodeB nodeC"
    by (simp add: rectangle_bearings_B)
  have none: "\<not> (\<exists>c. Some c \<in> set (neighborCandidates rectangleNb (nodes ?env) nodeA)
                  \<and> 0 < relativeBearing nodeA nodeC c)"
    using arctan_four_thirds by (auto simp: cands rectangle_bearings_C)
  note instLeft = firstLeft_smallest_positive
    [OF strat, where nb = rectangleNb and r = 0 and current = nodeA and destination = nodeB
       and n = nodeD and c = nodeD]
  note instBack = firstLeft_smallest_positive
    [OF strat, where nb = rectangleNb and r = 0 and current = nodeA and destination = nodeC
       and n = nodeC and c = nodeC]
  from instLeft rectangle_firstLeft(1) cands posC have
    "0 < relativeBearing nodeA nodeB nodeD
     \<and> relativeBearing nodeA nodeB nodeD \<le> relativeBearing nodeA nodeB nodeC
     \<and> relativeBearing nodeA nodeB nodeD \<le> pi"
    by auto
  moreover from instBack rectangle_firstLeft(2) none cands have
    "relativeBearing nodeA nodeC nodeB \<le> relativeBearing nodeA nodeC nodeC"
    by auto
  ultimately show ?thesis
    using rectangle_firstLeft by simp
qed

section \<open>The \<open>random\<close> strategy within a run\<close>

text \<open>
  C4. The code does not keep the claim. Within a run, \<open>getNextNode\<close> reads \<open>routeEdges\<close>
  from the closure the run started in, not the route as it grows: the start empties the
  route before the run is launched, and \<open>simulateRoutingStep\<close> calls itself in that same
  closure. The filter of the \<open>random\<close> arm therefore removes nothing. On the rectangle,
  started from \<open>nodeA\<close> to \<open>nodeD\<close>, the first hop goes to \<open>nodeB\<close> and puts the edge from
  \<open>nodeA\<close> to \<open>nodeB\<close> on the route; the next hop, from \<open>nodeB\<close>, returns \<open>nodeA\<close>, whose edge to
  \<open>nodeB\<close> has just been traversed, and the packet goes back along it. Had the function
  read the route as it stands after the first hop, it would have returned \<open>nodeD\<close>.
\<close>

theorem random_reuses_traversed_edge:
  "startRoutingSimulation 0 0 (rectangleState Random) = Inr randomStarted
   \<and> runSteps rectangleNb [0] randomStarted (randomStarted\<lparr>simulationStarted := True\<rparr>)
        nodeA nodeD = Inr randomFirstHop
   \<and> routeEdges randomFirstHop = [edgeAB]
   \<and> startId edgeAB = nid nodeA \<and> endId edgeAB = nid nodeB
   \<and> simulateRoutingStep rectangleNb 0 randomStarted randomFirstHop nodeB nodeD
       = Inr (randomSecondHop, Some nodeA)
   \<and> routeEdges randomSecondHop = [edgeAB, edgeBA]
   \<and> runSimulation rectangleNb [0, 0] randomStarted = Inr randomSecondHop
   \<and> getNextNode rectangleNb randomFirstHop 0 nodeB nodeD = Inr (Some nodeD)"
proof -
  have start: "startRoutingSimulation 0 0 (rectangleState Random) = Inr randomStarted"
    by (simp add: startRoutingSimulation_def randomStarted_def ex_defs inactiveColor_def
        pick_def packetAD_def)
  have hop1: "getNextNode rectangleNb randomStarted 0 nodeA nodeD = Inr (Some nodeB)"
    and hop2: "getNextNode rectangleNb randomStarted 0 nodeB nodeD = Inr (Some nodeA)"
    by (simp_all add: getNextNode_def neighborCandidates_def findIndex_def chooseNeighbor_def
        randomUnused_def pick_def edgeTraversed_def randomStarted_def ex_defs)
  have live: "getNextNode rectangleNb randomFirstHop 0 nodeB nodeD = Inr (Some nodeD)"
    by (simp add: getNextNode_def neighborCandidates_def findIndex_def chooseNeighbor_def
        randomUnused_def pick_def edgeTraversed_def randomFirstHop_def randomStarted_def
        edgeAB_def ex_defs)
  have pkt: "packet randomStarted = Some packetAD" "\<not> simulationStarted randomStarted"
    "routeEdges randomStarted = []"
    by (simp_all add: randomStarted_def rectangleState_def)
  have ends: "pkt_currentNode packetAD = nodeA" "pkt_destination packetAD = nodeD"
    by (simp_all add: packetAD_def)
  have ids: "nid nodeB \<noteq> nid nodeD" "nid nodeA \<noteq> nid nodeD"
    "startId edgeAB = nid nodeA" "endId edgeAB = nid nodeB"
    by (simp_all add: ex_defs edgeAB_def)
  have edges: "hopEdge nodeA nodeB (ncolor nodeD) = edgeAB"
    "hopEdge nodeB nodeA (ncolor nodeD) = edgeBA"
    by (simp_all add: hopEdge_def edgeAB_def edgeBA_def ex_defs)
  have routes: "routeEdges randomFirstHop = [edgeAB]"
    "routeEdges randomSecondHop = [edgeAB, edgeBA]"
    by (simp_all add: randomFirstHop_def randomSecondHop_def)
  have first: "runSteps rectangleNb [0] randomStarted
                 (randomStarted\<lparr>simulationStarted := True\<rparr>) nodeA nodeD = Inr randomFirstHop"
    by (simp add: simulateRoutingStep_def Let_def pkt ends ids edges hop1)
      (simp add: randomFirstHop_def randomStarted_def rectangleState_def)
  have second: "simulateRoutingStep rectangleNb 0 randomStarted randomFirstHop nodeB nodeD
                  = Inr (randomSecondHop, Some nodeA)"
    by (simp add: simulateRoutingStep_def Let_def pkt ends ids edges hop2 routes)
      (simp add: randomFirstHop_def randomSecondHop_def randomStarted_def rectangleState_def
        packetAD_def)
  have run: "runSimulation rectangleNb [0, 0] randomStarted = Inr randomSecondHop"
    by (simp add: runSimulation_def simulateRoutingStep_def Let_def pkt ends ids edges
        hop1 hop2)
      (simp add: randomSecondHop_def randomStarted_def rectangleState_def packetAD_def)
  from start first routes ids(3,4) second run live show ?thesis
    by (intro conjI)
qed

end
